theory Spec2Isabelle
  imports Main "HOL-Library.Multiset"
begin

section \<open>Data model of the Taskfile reader\<close>

text \<open>
  The reader of \<^verbatim>\<open>taskfile/reader.go\<close> walks the include tree of a Taskfile and
  builds a directed acyclic graph of documents. A location (the result of
  \<^verbatim>\<open>Node.Location()\<close>) is a string and is the key of a vertex.
\<close>

type_synonym location = string

text \<open>\<^verbatim>\<open>time.Duration\<close> is only copied around by the reader, never computed with.\<close>

type_synonym duration = int

text \<open>The result of \<^verbatim>\<open>Node.Read()\<close>: the bytes and the directory of the document.\<close>

record source =
  FileContent :: string
  FileDirectory :: string

text \<open>
  The errors the reader builds or tests for, those of the graph among them.
  \<^verbatim>\<open>errors.Is(err, os.ErrNotExist)\<close> is the test for the constructor \<open>ErrNotExist\<close>,
  \<^verbatim>\<open>errors.As(err, &te)\<close> the test for the constructor \<open>TaskfileNetworkTimeoutError\<close>,
  whose fields are \<^verbatim>\<open>URI\<close>, \<^verbatim>\<open>Timeout\<close> and \<^verbatim>\<open>CheckedCache\<close>. Every error of a
  collaborator that the reader only passes on is an \<open>OtherError\<close>.
\<close>

datatype error =
    ErrNotExist
  | TaskfileCacheNotFoundError location
  | TaskfileNetworkTimeoutError location duration bool
  | TaskfileNotTrustedError location
  | TaskfileCycleError location location
  | TaskfileDecodeError string
  | TaskfileDecodeErrorWithFileInfo string location string nat
  | TaskfileInvalidError location error
  | TaskfileVersionCheckError location
  | ErrVertexAlreadyExists
  | ErrEdgeNotFound
  | ErrEdgeCreatesCycle
  | OtherError string

text \<open>
  A node is a handle on the place a document lives. The type assertion
  \<^verbatim>\<open>n.(*RemoteNode)\<close> of \<^verbatim>\<open>loadNode\<close> succeeds on \<open>RemoteNode\<close> only.
\<close>

datatype node = LocalNode location | RemoteNode location | CacheNode location

fun Location :: "node \<Rightarrow> location" where
  "Location (LocalNode l) = l"
| "Location (RemoteNode l) = l"
| "Location (CacheNode l) = l"

text \<open>
  The two prompts of \<^verbatim>\<open>loadNode\<close>. The source holds the prompt in a string that is
  empty when no prompt is due; both format strings are non-empty, so the string is
  non-empty exactly when one of the two branches assigned it: \<open>prompt option\<close>.
\<close>

datatype prompt = taskfileUntrustedPrompt location | taskfileChangedPrompt location

text \<open>
  What the reader does to the outside world, in the order it does it: the fetch of
  \<^verbatim>\<open>remote.Read()\<close>, the calls of the cache, the checksum of the fetched source, the
  prompt, the traces of \<^verbatim>\<open>VerboseOutf\<close>, the \<^verbatim>\<open>Read()\<close> of the loaded node and the
  call of \<^verbatim>\<open>yaml.Unmarshal\<close>. \<open>ReadNode\<close> marks the entry of \<^verbatim>\<open>readNode\<close>.
\<close>

datatype event =
    NetworkFetch location
  | CacheRead location
  | ChecksumRead location
  | ChecksumComputed
  | Prompted prompt
  | CacheWrite location
  | VerboseOutf string location
  | ReadNode location
  | NodeRead location
  | Unmarshal location

text \<open>A cache entry: the bytes last fetched and their checksum.\<close>

record cache_entry =
  content :: source
  digest :: string

record world =
  cache :: "location \<rightharpoonup> cache_entry"
  events :: "event list"

definition emit :: "event \<Rightarrow> world \<Rightarrow> world" where
  "emit e w = w\<lparr>events := events w @ [e]\<rparr>"

text \<open>The fields of \<^verbatim>\<open>Reader\<close> that configure a run (the graph is part of the state).\<close>

record reader =
  insecure :: bool
  download :: bool
  offline :: bool
  timeout :: duration
  tempDir :: string

section \<open>Documents, includes and the document graph\<close>

type_synonym vars = "string \<rightharpoonup> string"

text \<open>\<^verbatim>\<open>ast.Include\<close>, with the fields the reader copies.\<close>

record Include =
  Namespace :: string
  Taskfile :: string
  Dir :: string
  Optional :: bool
  Internal :: bool
  Flatten :: bool
  Aliases :: "string list"
  AdvancedImport :: bool
  Vars :: vars

text \<open>
  \<^verbatim>\<open>ast.Task\<close>: its name and the two fields of \<^verbatim>\<open>task.Location\<close> that
  \<^verbatim>\<open>readNode\<close> writes.
\<close>

record task =
  Task :: string
  Location_Taskfile :: string
  Location_TaskfileDir :: string

text \<open>
  \<^verbatim>\<open>ast.Taskfile\<close>. \<^verbatim>\<open>Version\<close> is a pointer (\<open>None\<close> is nil); \<^verbatim>\<open>Tasks\<close> and
  \<^verbatim>\<open>Includes\<close> are ordered maps, and a value of \<^verbatim>\<open>Tasks\<close> is a pointer that may be nil.
\<close>

record taskfile =
  Version :: "string option"
  tfVars :: vars
  Tasks :: "(string \<times> task option) list"
  Includes :: "(string \<times> Include) list"
  tfLocation :: string

text \<open>An edge of the graph: its end points, the includes it carries and its weight.\<close>

record edge =
  Source :: location
  Target :: location
  Data :: "Include list"
  Weight :: int

text \<open>
  \<^verbatim>\<open>ast.TaskfileGraph\<close>: the vertices in the order they were added, each a
  \<^verbatim>\<open>TaskfileVertex\<close> with its \<^verbatim>\<open>URI\<close> and its \<^verbatim>\<open>Taskfile\<close> (nil until read), and the
  edges.
\<close>

record taskfile_graph =
  vertices :: "(location \<times> taskfile option) list"
  edges :: "edge list"

section \<open>Collaborators of the reader\<close>

text \<open>
  What the network, the user, the file system, the YAML decoder and the templater answer
  is not decided by the reader: it is a parameter of the model. \<open>NewNode\<close> takes the
  entrypoint, the directory, the insecure flag, the timeout and the parent node.
\<close>

record env =
  NewCache_fault :: "string \<Rightarrow> error option"
  cache_read_fault :: "location \<Rightarrow> error option"
  cache_write_fault :: "location \<Rightarrow> error option"
  remote_Read :: "location \<Rightarrow> error + source"
  checksumSource :: "source \<Rightarrow> error + string"
  Prompt_accepted :: "prompt \<Rightarrow> bool"
  node_Read :: "node \<Rightarrow> error + source"
  yaml_Unmarshal :: "string \<Rightarrow> error + taskfile"
  TryAbsToRel :: "string \<Rightarrow> string"
  GetEnviron :: vars
  templater_Replace :: "vars \<Rightarrow> string \<Rightarrow> string \<times> error option"
  ResolveEntrypoint :: "node \<Rightarrow> string \<Rightarrow> error + string"
  ResolveDir :: "node \<Rightarrow> string \<Rightarrow> error + string"
  NewNode :: "string \<Rightarrow> string \<Rightarrow> bool \<Rightarrow> duration \<Rightarrow> node \<Rightarrow> error + node"

text \<open>
  Modelled from the spec: \<^verbatim>\<open>Cache.read\<close> of the remote cache, which the reader only
  calls. The contract is \<open>read(sourceIdentity) \<rightarrow> (bytes, error-or-not-found)\<close>:
  the entry of the source when there is one, the not-found error when there is none.
  A read leaves the cache as it is. The node handed back keeps the location of the
  source (\<open>Location()\<close> is the canonical stable identity).
\<close>

definition cache_read :: "env \<Rightarrow> location \<Rightarrow> world \<Rightarrow> (error + node) \<times> world" where
  "cache_read E l w =
     (let w1 = emit (CacheRead l) w in
      case cache_read_fault E l of
        Some e \<Rightarrow> (Inl e, w1)
      | None \<Rightarrow>
          (case cache w l of
             None \<Rightarrow> (Inl ErrNotExist, w1)
           | Some c \<Rightarrow> (Inr (CacheNode l), w1)))"

text \<open>
  Modelled from the spec: \<^verbatim>\<open>Cache.readChecksum\<close>, with the contract
  \<open>readChecksum(sourceIdentity) \<rightarrow> string-or-empty\<close>.
\<close>

definition cache_readChecksum :: "location \<Rightarrow> world \<Rightarrow> string \<times> world" where
  "cache_readChecksum l w =
     (case cache w l of
        None \<Rightarrow> ([], emit (ChecksumRead l) w)
      | Some c \<Rightarrow> (digest c, emit (ChecksumRead l) w))"

text \<open>
  Modelled from the spec: \<^verbatim>\<open>Cache.write\<close>, with the contract
  \<open>write(sourceIdentity, bytes) \<rightarrow> (newNodeHandle, error)\<close>: it persists the fetched
  content and its checksum, replacing any prior entry for that source.
\<close>

definition cache_write :: "env \<Rightarrow> location \<Rightarrow> source \<Rightarrow> world \<Rightarrow> (error + node) \<times> world" where
  "cache_write E l src w =
     (let w1 = emit (CacheWrite l) w in
      case cache_write_fault E l of
        Some e \<Rightarrow> (Inl e, w1)
      | None \<Rightarrow>
          (case checksumSource E src of
             Inl e \<Rightarrow> (Inl e, w1)
           | Inr c \<Rightarrow>
               (Inr (RemoteNode l),
                w1\<lparr>cache := (cache w1)(l \<mapsto> \<lparr>content = src, digest = c\<rparr>)\<rparr>)))"

section \<open>loadNode\<close>

text \<open>The trust decision of lines 285 to 292: which prompt, if any, is due.\<close>

definition choose_prompt :: "location \<Rightarrow> string \<Rightarrow> string \<Rightarrow> prompt option" where
  "choose_prompt l cachedChecksum checksum =
     (if cachedChecksum = [] then Some (taskfileUntrustedPrompt l)
      else if checksum \<noteq> cachedChecksum then Some (taskfileChangedPrompt l)
      else None)"

text \<open>Lines 278 to 306: the fetch succeeded with \<open>src\<close>.\<close>

definition trust_fetched :: "env \<Rightarrow> location \<Rightarrow> source \<Rightarrow> world \<Rightarrow> (error + node) \<times> world" where
  "trust_fetched E l src w =
     (let (cachedChecksum, w1) = cache_readChecksum l w;
          w2 = emit ChecksumComputed w1 in
      case checksumSource E src of
        Inl e \<Rightarrow> (Inl e, w2)
      | Inr checksum \<Rightarrow>
          (case choose_prompt l cachedChecksum checksum of
             None \<Rightarrow> (Inr (RemoteNode l), w2)
           | Some p \<Rightarrow>
               (let w3 = emit (Prompted p) w2 in
                if \<not> Prompt_accepted E p then (Inl (TaskfileNotTrustedError l), w3)
                else cache_write E l src
                       (emit (VerboseOutf ''Caching downloaded file'' l) w3))))"

text \<open>Lines 254 to 272: the fetch failed with a network timeout error \<open>te\<close>.\<close>

definition timed_out :: "env \<Rightarrow> reader \<Rightarrow> location \<Rightarrow> duration \<Rightarrow> world \<Rightarrow> (error + node) \<times> world" where
  "timed_out E r l te_Timeout w =
     (if download r then (Inl (TaskfileNetworkTimeoutError l te_Timeout False), w)
      else
        (case cache_read E l w of
           (Inl e, w1) \<Rightarrow>
             if e = ErrNotExist then (Inl (TaskfileNetworkTimeoutError l (timeout r) True), w1)
             else (Inl e, w1)
         | (Inr cached, w1) \<Rightarrow>
             (Inr cached, emit (VerboseOutf ''Network timeout. Fetched cached copy'' l) w1)))"

definition loadNode :: "env \<Rightarrow> reader \<Rightarrow> node \<Rightarrow> world \<Rightarrow> (error + node) \<times> world" where
  "loadNode E r n w =
     (case n of
        RemoteNode l \<Rightarrow>
          (case NewCache_fault E (tempDir r) of
             Some e \<Rightarrow> (Inl e, w)
           | None \<Rightarrow>
               if offline r then
                 (case cache_read E l w of
                    (Inl e, w1) \<Rightarrow>
                      if e = ErrNotExist then (Inl (TaskfileCacheNotFoundError l), w1)
                      else (Inl e, w1)
                  | (Inr cached, w1) \<Rightarrow>
                      (Inr cached, emit (VerboseOutf ''Fetched cached copy'' l) w1))
               else
                 (let w1 = emit (NetworkFetch l) w in
                  case remote_Read E l of
                    Inl (TaskfileNetworkTimeoutError u t c) \<Rightarrow> timed_out E r l t w1
                  | Inl e \<Rightarrow> (Inl e, w1)
                  | Inr src \<Rightarrow>
                      trust_fetched E l src (emit (VerboseOutf ''Fetched remote copy'' l) w1)))
      | _ \<Rightarrow> (Inr n, w))"

section \<open>readNode\<close>

text \<open>
  Lines 215 to 221, for a task that is defined: each of the two location fields is
  written only when it is empty.
\<close>

definition stamp_task :: "location \<Rightarrow> string \<Rightarrow> task \<Rightarrow> task" where
  "stamp_task loc dir t =
     (let t1 = (if Location_Taskfile t = [] then t\<lparr>Location_Taskfile := loc\<rparr> else t)
      in if Location_TaskfileDir t1 = [] then t1\<lparr>Location_TaskfileDir := dir\<rparr> else t1)"

text \<open>
  The body of the loop of lines 210 to 222 on one value of \<^verbatim>\<open>tf.Tasks\<close>. For a nil
  value the loop makes a new task and stamps that one; the new task is held by the
  loop variable only, so the value in the map stays nil.
\<close>

fun stamp_value :: "location \<Rightarrow> string \<Rightarrow> task option \<Rightarrow> task option" where
  "stamp_value loc dir None = None"
| "stamp_value loc dir (Some t) = Some (stamp_task loc dir t)"

definition stamp_taskfile :: "location \<Rightarrow> string \<Rightarrow> taskfile \<Rightarrow> taskfile" where
  "stamp_taskfile loc dir tf =
     tf\<lparr>tfLocation := loc,
        Tasks := map (\<lambda>(name, v). (name, stamp_value loc dir v)) (Tasks tf)\<rparr>"

text \<open>Lines 194 to 201: what becomes of an error of \<^verbatim>\<open>yaml.Unmarshal\<close>.\<close>

fun decode_failure :: "env \<Rightarrow> node \<Rightarrow> source \<Rightarrow> error \<Rightarrow> error" where
  "decode_failure E n src (TaskfileDecodeError m) =
     TaskfileDecodeErrorWithFileInfo m (Location n) (FileContent src) 2"
| "decode_failure E n src err = TaskfileInvalidError (TryAbsToRel E (Location n)) err"

definition readNode :: "env \<Rightarrow> reader \<Rightarrow> node \<Rightarrow> world \<Rightarrow> (error + taskfile \<times> node) \<times> world" where
  "readNode E r n w =
     (case loadNode E r n (emit (ReadNode (Location n)) w) of
        (Inl e, w1) \<Rightarrow> (Inl e, w1)
      | (Inr node1, w1) \<Rightarrow>
          (let w2 = emit (NodeRead (Location node1)) w1 in
           case node_Read E node1 of
             Inl e \<Rightarrow> (Inl e, w2)
           | Inr src \<Rightarrow>
               (let w3 = emit (Unmarshal (Location node1)) w2 in
                case yaml_Unmarshal E (FileContent src) of
                  Inl e \<Rightarrow> (Inl (decode_failure E node1 src e), w3)
                | Inr tf \<Rightarrow>
                    if Version tf = None
                    then (Inl (TaskfileVersionCheckError (Location node1)), w3)
                    else (Inr (stamp_taskfile (Location node1) (FileDirectory src) tf, node1),
                          w3))))"

section \<open>The document graph\<close>

definition edge_pairs :: "edge list \<Rightarrow> (location \<times> location) set" where
  "edge_pairs es = set (map (\<lambda>e. (Source e, Target e)) es)"

text \<open>
  Modelled from the spec: the cycle test of the graph (the graph of
  \<^verbatim>\<open>ast.TaskfileGraph\<close> is not part of the sources at hand). An edge from \<open>src\<close> to
  \<open>dst\<close> is refused when it "would create a path back to an ancestor of src", that is
  when \<open>dst\<close> is \<open>src\<close> or \<open>src\<close> can be reached from \<open>dst\<close>.
\<close>

definition creates_cycle :: "edge list \<Rightarrow> location \<Rightarrow> location \<Rightarrow> bool" where
  "creates_cycle es src dst \<longleftrightarrow> src = dst \<or> (dst, src) \<in> (edge_pairs es)\<^sup>+"

text \<open>
  Modelled from the spec: \<open>addVertex(location, document-or-pending)\<close> "fails
  distinguishably when the vertex already exists". The new vertex has no document yet.
\<close>

definition AddVertex :: "location \<Rightarrow> taskfile_graph \<Rightarrow> error + taskfile_graph" where
  "AddVertex l g =
     (if l \<in> set (map fst (vertices g)) then Inl ErrVertexAlreadyExists
      else Inr (g\<lparr>vertices := vertices g @ [(l, None)]\<rparr>))"

text \<open>
  Line 90 stores the document in the vertex the call has added (the vertex is shared
  with the graph through a pointer).
\<close>

definition set_Taskfile :: "location \<Rightarrow> taskfile \<Rightarrow> taskfile_graph \<Rightarrow> taskfile_graph" where
  "set_Taskfile l tf g =
     g\<lparr>vertices := map (\<lambda>(k, v). if k = l then (k, Some tf) else (k, v)) (vertices g)\<rparr>"

text \<open>
  Modelled from the spec: the lookup of the edge of a pair of locations, which fails
  with the edge-not-found error when the pair has no edge, and in no other way.
\<close>

definition Edge :: "taskfile_graph \<Rightarrow> location \<Rightarrow> location \<Rightarrow> error + edge" where
  "Edge g src dst =
     (case find (\<lambda>e. Source e = src \<and> Target e = dst) (edges g) of
        None \<Rightarrow> Inl ErrEdgeNotFound
      | Some e \<Rightarrow> Inr e)"

text \<open>
  Modelled from the spec: \<open>addEdge(src, dst, includeList)\<close> "fails with a cycle error
  if the new edge would create a path back to an ancestor of src"; otherwise the edge
  is added. A failed call leaves the graph as it is.
\<close>

definition AddEdge :: "taskfile_graph \<Rightarrow> location \<Rightarrow> location \<Rightarrow> Include list \<Rightarrow> int \<Rightarrow> error option \<times> taskfile_graph" where
  "AddEdge g src dst d wt =
     (if creates_cycle (edges g) src dst then (Some ErrEdgeCreatesCycle, g)
      else (None, g\<lparr>edges := edges g @ [\<lparr>Source = src, Target = dst, Data = d, Weight = wt\<rparr>]\<rparr>))"

text \<open>
  Modelled from the spec: \<open>updateEdge(src, dst, mergedIncludeList)\<close>, with the same
  cycle failure as \<open>addEdge\<close>; otherwise the edge of the pair is rewritten with the new
  list and weight. There is no edge to rewrite when the pair has none.
\<close>

definition UpdateEdge :: "taskfile_graph \<Rightarrow> location \<Rightarrow> location \<Rightarrow> Include list \<Rightarrow> int \<Rightarrow> error option \<times> taskfile_graph" where
  "UpdateEdge g src dst d wt =
     (if find (\<lambda>e. Source e = src \<and> Target e = dst) (edges g) = None
      then (Some ErrEdgeNotFound, g)
      else if creates_cycle (edges g) src dst then (Some ErrEdgeCreatesCycle, g)
      else (None,
            g\<lparr>edges := map (\<lambda>e. if Source e = src \<and> Target e = dst
                                  then e\<lparr>Data := d, Weight := wt\<rparr> else e) (edges g)\<rparr>))"

section \<open>include\<close>

text \<open>
  Lines 146 to 173: the critical section that records the edge from \<open>src\<close> (the location
  of the current node) to \<open>dst\<close> (the location of the included node).
\<close>

definition link :: "taskfile_graph \<Rightarrow> location \<Rightarrow> location \<Rightarrow> Include \<Rightarrow> error option \<times> taskfile_graph" where
  "link g src dst inc =
     (let (err, g1) =
            (case Edge g src dst of
               Inl e \<Rightarrow> AddEdge g src dst [inc] 1
             | Inr e \<Rightarrow>
                 (let edgeData = Data e @ [inc]
                  in UpdateEdge g src dst edgeData (int (length edgeData))))
      in if err = Some ErrEdgeCreatesCycle then (Some (TaskfileCycleError src dst), g1)
         else (err, g1))"

text \<open>
  Modelled from the spec: the templater, "substitute(template string, variableContext)",
  in the mode that "accumulates multiple substitution errors observable after the fact":
  \<open>Replace\<close> hands back the string and keeps the first error in the cache of the
  templater, where \<^verbatim>\<open>cache.Err()\<close> finds it.
\<close>

definition Replace :: "env \<Rightarrow> vars \<Rightarrow> string \<Rightarrow> error option \<Rightarrow> string \<times> error option" where
  "Replace E vs v cache_err =
     (let (s, e) = templater_Replace E vs v
      in (s, case cache_err of Some x \<Rightarrow> Some x | None \<Rightarrow> e))"

text \<open>
  Lines 100 to 118: the copy of the include with the two templates substituted, and
  what \<^verbatim>\<open>cache.Err()\<close> finds afterwards. The variables are those of the process
  environment merged with those of the document, which win.
\<close>

definition substitute :: "env \<Rightarrow> taskfile \<Rightarrow> Include \<Rightarrow> Include \<times> error option" where
  "substitute E tf inc0 =
     (let vs = GetEnviron E ++ tfVars tf;
          (tfile, c1) = Replace E vs (Taskfile inc0) None;
          (dir0, c2) = Replace E vs (Dir inc0) c1
      in (inc0\<lparr>Taskfile := tfile, Dir := dir0\<rparr>, c2))"

text \<open>
  Lines 116 to 138: what the goroutine of one include does before it calls \<^verbatim>\<open>include\<close>
  for the included node. \<open>Inl err\<close> is the goroutine returning \<open>err\<close> at lines 117, 122,
  127, 135 or 137; \<open>Inr\<close> has the included node and the resolved copy of the include.
\<close>

definition resolve :: "env \<Rightarrow> reader \<Rightarrow> node \<Rightarrow> taskfile \<Rightarrow> Include \<Rightarrow> error option + node \<times> Include" where
  "resolve E r n tf inc0 =
     (case substitute E tf inc0 of
        (inc1, Some e) \<Rightarrow> Inl (Some e)
      | (inc1, None) \<Rightarrow>
          (case ResolveEntrypoint E n (Taskfile inc1) of
             Inl e \<Rightarrow> Inl (Some e)
           | Inr entrypoint \<Rightarrow>
               (case ResolveDir E n (Dir inc1) of
                  Inl e \<Rightarrow> Inl (Some e)
                | Inr dir1 \<Rightarrow>
                    (let inc2 = inc1\<lparr>Dir := dir1\<rparr> in
                     case NewNode E entrypoint (Dir inc2) (insecure r) (timeout r) n of
                       Inl e \<Rightarrow> if Optional inc2 then Inl None else Inl (Some e)
                     | Inr includeNode \<Rightarrow> Inr (includeNode, inc2)))))"

text \<open>
  \<^verbatim>\<open>errgroup.Group\<close> keeps the first error that one of its goroutines returns, and
  \<^verbatim>\<open>Wait\<close> hands it back when all of them are done. \<open>first_error\<close> keeps the error
  already recorded.
\<close>

fun first_error :: "error option \<Rightarrow> error option \<Rightarrow> error option" where
  "first_error (Some e) _ = Some e"
| "first_error None e = e"

section \<open>include: goroutines and schedules\<close>

text \<open>
  \<^verbatim>\<open>include\<close> starts one goroutine for each include of the document it has read
  (\<^verbatim>\<open>g.Go\<close>, line 103) and waits for them (\<^verbatim>\<open>g.Wait\<close>, line 179); each goroutine calls
  \<^verbatim>\<open>include\<close> again. The goroutines share the graph and the outside world. The model
  keeps the goroutines in a pool, the caller of \<^verbatim>\<open>Read\<close> first, and lets a schedule
  say which goroutine does its next step.

  Where a goroutine is:
  \<^item> \<open>Resolving n tf inc\<close>: started at line 103 for the include \<open>inc\<close> of the document
    \<open>tf\<close> read from \<open>n\<close>;
  \<^item> \<open>Claiming n\<close>: it has called \<^verbatim>\<open>include\<close> for \<open>n\<close>, line 82 is next;
  \<^item> \<open>Loading n\<close>: it has added the vertex, line 90 is next;
  \<^item> \<open>Waiting slot\<close>: it has started the goroutines of the includes and is in
    \<^verbatim>\<open>g.Wait\<close>, \<open>slot\<close> being the error its \<^verbatim>\<open>errgroup\<close> has recorded;
  \<^item> \<open>Linking\<close>: \<^verbatim>\<open>include\<close> has returned nil at line 141, the critical section of
    line 146 is next;
  \<^item> \<open>Returned err\<close>: its function has returned \<open>err\<close>, which the \<^verbatim>\<open>errgroup\<close> it
    belongs to has not recorded yet;
  \<^item> \<open>Finished err\<close>: it is done.
\<close>

datatype stage =
    Resolving node taskfile Include
  | Claiming node
  | Loading node
  | Waiting "error option"
  | Linking
  | Returned "error option"
  | Finished "error option"

text \<open>
  A goroutine: the goroutine whose \<^verbatim>\<open>errgroup\<close> it belongs to (none for the caller of
  \<^verbatim>\<open>Read\<close>), the edge it is to record once \<^verbatim>\<open>include\<close> has returned (source,
  destination and resolved include; none for the caller of \<^verbatim>\<open>Read\<close>, and none before the
  include is resolved), and where it is.
\<close>

record goroutine =
  parent :: "nat option"
  job :: "(location \<times> location \<times> Include) option"
  now :: stage

record config =
  graph :: taskfile_graph
  io :: world
  pool :: "goroutine list"

fun is_Finished :: "stage \<Rightarrow> bool" where
  "is_Finished (Finished err) = True"
| "is_Finished s = False"

text \<open>
  Lines 141 to 146, and lines 65 to 69 for the caller of \<^verbatim>\<open>Read\<close>: where a goroutine
  goes when its call of \<^verbatim>\<open>include\<close> has returned \<open>err\<close>.
\<close>

definition after_include :: "goroutine \<Rightarrow> error option \<Rightarrow> stage" where
  "after_include t err =
     (case err of
        Some e \<Rightarrow> Returned (Some e)
      | None \<Rightarrow> (case job t of None \<Rightarrow> Returned None | Some j \<Rightarrow> Linking))"

text \<open>Lines 99 to 176: the goroutines of the includes of \<open>tf\<close>, started by goroutine \<open>i\<close>.\<close>

definition spawn :: "nat \<Rightarrow> node \<Rightarrow> taskfile \<Rightarrow> goroutine list" where
  "spawn i node1 tf =
     map (\<lambda>inc. \<lparr>parent = Some i, job = None, now = Resolving node1 tf inc\<rparr>)
       (map snd (Includes tf))"

text \<open>The \<^verbatim>\<open>errgroup\<close> of a waiting goroutine records the error one of its goroutines returned.\<close>

definition record_error :: "error option \<Rightarrow> goroutine \<Rightarrow> goroutine" where
  "record_error err p =
     (case now p of Waiting slot \<Rightarrow> p\<lparr>now := Waiting (first_error slot err)\<rparr> | _ \<Rightarrow> p)"

definition report :: "nat option \<Rightarrow> error option \<Rightarrow> goroutine list \<Rightarrow> goroutine list" where
  "report par err ps =
     (case par of
        None \<Rightarrow> ps
      | Some p \<Rightarrow> if p < length ps then ps[p := record_error err (ps ! p)] else ps)"

text \<open>\<^verbatim>\<open>g.Wait\<close> returns when every goroutine of the group is done.\<close>

definition children_done :: "nat \<Rightarrow> goroutine list \<Rightarrow> bool" where
  "children_done i ps = list_all (\<lambda>u. parent u = Some i \<longrightarrow> is_Finished (now u)) ps"

text \<open>
  The next step of goroutine \<open>i\<close>. A step is what the goroutine does between two
  accesses to what it shares with the others: resolving its include (lines 104 to 138),
  adding the vertex (line 82), reading the document and starting the goroutines of its
  includes (lines 90 to 176), returning from \<^verbatim>\<open>g.Wait\<close> (line 179), the critical section
  of the edge (lines 146 to 173), and the recording of its result by the \<^verbatim>\<open>errgroup\<close>.
  The read of a document is one step: the reads of two goroutines do not interleave in
  the model. A goroutine that waits for others, that is done or that does not exist
  leaves the configuration as it is.
\<close>

definition step :: "env \<Rightarrow> reader \<Rightarrow> nat \<Rightarrow> config \<Rightarrow> config" where
  "step E r i c =
     (if length (pool c) \<le> i then c
      else
        (let t = pool c ! i in
         case now t of
           Resolving n tf inc0 \<Rightarrow>
             (case resolve E r n tf inc0 of
                Inl err \<Rightarrow> c\<lparr>pool := (pool c)[i := t\<lparr>now := Returned err\<rparr>]\<rparr>
              | Inr (includeNode, inc2) \<Rightarrow>
                  c\<lparr>pool := (pool c)[i := t\<lparr>job := Some (Location n, Location includeNode, inc2),
                                              now := Claiming includeNode\<rparr>]\<rparr>)
         | Claiming n \<Rightarrow>
             (case AddVertex (Location n) (graph c) of
                Inl e \<Rightarrow>
                  c\<lparr>pool := (pool c)[i := t\<lparr>now := after_include t
                         (if e = ErrVertexAlreadyExists then None else Some e)\<rparr>]\<rparr>
              | Inr g1 \<Rightarrow> c\<lparr>graph := g1, pool := (pool c)[i := t\<lparr>now := Loading n\<rparr>]\<rparr>)
         | Loading n \<Rightarrow>
             (case readNode E r n (io c) of
                (Inl e, w1) \<Rightarrow>
                  c\<lparr>io := w1, pool := (pool c)[i := t\<lparr>now := after_include t (Some e)\<rparr>]\<rparr>
              | (Inr (tf, node1), w1) \<Rightarrow>
                  c\<lparr>graph := set_Taskfile (Location n) tf (graph c), io := w1,
                    pool := (pool c)[i := t\<lparr>now := Waiting None\<rparr>] @ spawn i node1 tf\<rparr>)
         | Waiting slot \<Rightarrow>
             if children_done i (pool c)
             then c\<lparr>pool := (pool c)[i := t\<lparr>now := after_include t slot\<rparr>]\<rparr>
             else c
         | Linking \<Rightarrow>
             (case job t of
                None \<Rightarrow> c\<lparr>pool := (pool c)[i := t\<lparr>now := Returned None\<rparr>]\<rparr>
              | Some (src, dst, inc2) \<Rightarrow>
                  (case link (graph c) src dst inc2 of
                     (err, g1) \<Rightarrow> c\<lparr>graph := g1, pool := (pool c)[i := t\<lparr>now := Returned err\<rparr>]\<rparr>))
         | Returned err \<Rightarrow>
             c\<lparr>pool := (report (parent t) err (pool c))[i := t\<lparr>now := Finished err\<rparr>]\<rparr>
         | Finished err \<Rightarrow> c))"

text \<open>
  \<^verbatim>\<open>NewReader\<close> starts from an empty graph, and \<^verbatim>\<open>Read\<close> calls \<^verbatim>\<open>include\<close> for the node
  of the reader.
\<close>

definition NewTaskfileGraph :: taskfile_graph where
  "NewTaskfileGraph = \<lparr>vertices = [], edges = []\<rparr>"

definition start :: "node \<Rightarrow> world \<Rightarrow> config" where
  "start n w =
     \<lparr>graph = NewTaskfileGraph, io = w,
      pool = [\<lparr>parent = None, job = None, now = Claiming n\<rparr>]\<rparr>"

text \<open>A schedule names the goroutine of each step; \<open>exec\<close> runs a schedule.\<close>

definition exec :: "env \<Rightarrow> reader \<Rightarrow> nat list \<Rightarrow> config \<Rightarrow> config" where
  "exec E r sched c = fold (step E r) sched c"

text \<open>
  Lines 65 to 69: what \<^verbatim>\<open>Read\<close> hands back once its call of \<^verbatim>\<open>include\<close> has returned,
  the graph or the error; \<open>None\<close> while it has not.
\<close>

definition Read :: "config \<Rightarrow> (error + taskfile_graph) option" where
  "Read c =
     (case pool c of
        [] \<Rightarrow> None
      | t # ts \<Rightarrow>
          (case now t of
             Finished None \<Rightarrow> Some (Inr (graph c))
           | Finished (Some e) \<Rightarrow> Some (Inl e)
           | _ \<Rightarrow> None))"

section \<open>Observations and example collaborators\<close>


text \<open>
  The locations \<open>readNode\<close> was called for, and the locations whose content was handed to
  the YAML decoder, in order.
\<close>

fun read_locations :: "event list \<Rightarrow> location list" where
  "read_locations [] = []"
| "read_locations (ReadNode l # es) = l # read_locations es"
| "read_locations (e # es) = read_locations es"

fun unmarshal_locations :: "event list \<Rightarrow> location list" where
  "unmarshal_locations [] = []"
| "unmarshal_locations (Unmarshal l # es) = l # unmarshal_locations es"
| "unmarshal_locations (e # es) = unmarshal_locations es"

text \<open>
  The locations whose vertex a goroutine has added and whose document it has not read
  yet.
\<close>

fun loading_of :: "stage \<Rightarrow> location list" where
  "loading_of (Loading n) = [Location n]"
| "loading_of s = []"

definition loading :: "goroutine list \<Rightarrow> location list" where
  "loading ps = concat (map (\<lambda>t. loading_of (now t)) ps)"

text \<open>
  A goroutine has failed when it has returned an error, or waits with an error in its
  \<^verbatim>\<open>errgroup\<close>.
\<close>

fun failed :: "stage \<Rightarrow> bool" where
  "failed (Waiting (Some e)) = True"
| "failed (Returned (Some e)) = True"
| "failed (Finished (Some e)) = True"
| "failed s = False"

fun is_Waiting :: "stage \<Rightarrow> bool" where
  "is_Waiting (Waiting slot) = True"
| "is_Waiting s = False"

text \<open>
  The shape of the pool: the caller of \<^verbatim>\<open>Read\<close> is the first goroutine and the only one
  without a parent; a parent comes before its goroutines in the pool, and waits as long
  as one of them is not done.
\<close>

definition well_formed :: "config \<Rightarrow> bool" where
  "well_formed c \<longleftrightarrow>
     pool c \<noteq> [] \<and>
     (\<forall>j < length (pool c).
        case parent (pool c ! j) of
          None \<Rightarrow> j = 0
        | Some p \<Rightarrow> p < j \<and> (is_Finished (now (pool c ! j)) \<or> is_Waiting (now (pool c ! p))))"

text \<open>The parent of a goroutine that is done with an error has failed.\<close>

definition errors_reported :: "config \<Rightarrow> bool" where
  "errors_reported c \<longleftrightarrow>
     (\<forall>j < length (pool c). \<forall>e p.
        now (pool c ! j) = Finished (Some e) \<and> parent (pool c ! j) = Some p
        \<longrightarrow> failed (now (pool c ! p)))"

text \<open>
  The graph has a vertex once for each location that was read or is about to be read,
  and no other; and a document is decoded only when it is read.
\<close>

definition reads_once :: "config \<Rightarrow> bool" where
  "reads_once c \<longleftrightarrow>
     distinct (map fst (vertices (graph c)))
     \<and> mset (map fst (vertices (graph c))) =
         mset (read_locations (events (io c))) + mset (loading (pool c))
     \<and> mset (unmarshal_locations (events (io c))) \<subseteq># mset (read_locations (events (io c)))"

text \<open>
  Collaborators for the example runs: a network that answers, one whose timeout error
  carries 5, one whose timeout error carries the 10 the readers below are configured
  with, a user who declines, one who accepts.
\<close>

definition demo_source :: source where
  "demo_source = \<lparr>FileContent = ''version: 3'', FileDirectory = ''/''\<rparr>"

definition net_ok :: "location \<Rightarrow> error + source" where
  "net_ok l = Inr demo_source"

definition net_timeout :: "location \<Rightarrow> error + source" where
  "net_timeout l = Inl (TaskfileNetworkTimeoutError l 5 False)"

definition net_timeout_configured :: "location \<Rightarrow> error + source" where
  "net_timeout_configured l = Inl (TaskfileNetworkTimeoutError l 10 False)"

definition decline :: "prompt \<Rightarrow> bool" where
  "decline p = False"

definition accept :: "prompt \<Rightarrow> bool" where
  "accept p = True"

definition no_docs :: "string \<Rightarrow> error + taskfile" where
  "no_docs c = Inl (TaskfileDecodeError ''no document'')"

text \<open>
  An environment whose cache has no faults: the checksum of a source is its content after
  \<open>sum:\<close>, a node reads its own location as content, the templater hands back every
  template but one, each resolver every argument but \<open>?\<close>, and every entrypoint but
  \<open>X\<close> gives a local node.
\<close>

definition demo_NewNode :: "string \<Rightarrow> string \<Rightarrow> bool \<Rightarrow> duration \<Rightarrow> node \<Rightarrow> error + node" where
  "demo_NewNode ep d i t p =
     (if ep = ''X'' then Inl (OtherError ''unreachable'') else Inr (LocalNode ep))"

definition demo_checksum :: "source \<Rightarrow> error + string" where
  "demo_checksum s = Inr (''sum:'' @ FileContent s)"

definition demo_node_Read :: "node \<Rightarrow> error + source" where
  "demo_node_Read n = Inr \<lparr>FileContent = Location n, FileDirectory = ''/''\<rparr>"

definition demo_Replace :: "vars \<Rightarrow> string \<Rightarrow> string \<times> error option" where
  "demo_Replace vs s =
     (if s = ''{{.BAD}}'' then ([], Some (OtherError ''template'')) else (s, None))"

definition demo_ResolveEntrypoint :: "node \<Rightarrow> string \<Rightarrow> error + string" where
  "demo_ResolveEntrypoint n s = (if s = ''?'' then Inl (OtherError ''entrypoint'') else Inr s)"

definition demo_ResolveDir :: "node \<Rightarrow> string \<Rightarrow> error + string" where
  "demo_ResolveDir n s = (if s = ''?'' then Inl (OtherError ''directory'') else Inr s)"

definition no_fault :: "string \<Rightarrow> error option" where
  "no_fault l = None"

definition demo_env :: "(location \<Rightarrow> error + source) \<Rightarrow> (prompt \<Rightarrow> bool) \<Rightarrow> (string \<Rightarrow> error + taskfile) \<Rightarrow> env" where
  "demo_env net user docs = \<lparr>
     NewCache_fault = no_fault, cache_read_fault = no_fault, cache_write_fault = no_fault,
     remote_Read = net,
     checksumSource = demo_checksum,
     Prompt_accepted = user,
     node_Read = demo_node_Read,
     yaml_Unmarshal = docs,
     TryAbsToRel = id,
     GetEnviron = Map.empty,
     templater_Replace = demo_Replace,
     ResolveEntrypoint = demo_ResolveEntrypoint,
     ResolveDir = demo_ResolveDir,
     NewNode = demo_NewNode\<rparr>"

definition demo_reader :: "bool \<Rightarrow> bool \<Rightarrow> reader" where
  "demo_reader dl off =
     \<lparr>insecure = False, download = dl, offline = off, timeout = 10, tempDir = ''/tmp''\<rparr>"

definition empty_world :: world where
  "empty_world = \<lparr>cache = Map.empty, events = []\<rparr>"

definition cached_world :: "location \<Rightarrow> string \<Rightarrow> world" where
  "cached_world l d = \<lparr>cache = [l \<mapsto> \<lparr>content = demo_source, digest = d\<rparr>], events = []\<rparr>"

text \<open>Documents for the example runs: version 3, no variables.\<close>

definition demo_include :: "string \<Rightarrow> string \<Rightarrow> bool \<Rightarrow> Include" where
  "demo_include ns t opt =
     \<lparr>Namespace = ns, Taskfile = t, Dir = [], Optional = opt, Internal = False,
      Flatten = False, Aliases = [], AdvancedImport = False, Vars = Map.empty\<rparr>"

definition demo_doc :: "(string \<times> task option) list \<Rightarrow> (string \<times> Include) list \<Rightarrow> taskfile" where
  "demo_doc ts incs =
     \<lparr>Version = Some ''3'', tfVars = Map.empty, Tasks = ts, Includes = incs, tfLocation = []\<rparr>"

text \<open>
  A document with a task that has its directory set already, and a task name without
  a definition.
\<close>

definition tasks_docs :: "string \<Rightarrow> error + taskfile" where
  "tasks_docs c =
     Inr (demo_doc
       [(''build'', Some \<lparr>Task = ''build'', Location_Taskfile = [],
                           Location_TaskfileDir = ''/preset''\<rparr>),
        (''empty'', None)] [])"

text \<open>
  Include trees for the example runs: a diamond (A includes B and C, both include D), a
  cycle (A includes B, B includes A), a document that includes the same target under
  two namespaces, and a document whose only include cannot be constructed.
\<close>

definition diamond_docs :: "string \<Rightarrow> error + taskfile" where
  "diamond_docs c =
     (if c = ''A'' then Inr (demo_doc [] [(''b'', demo_include ''b'' ''B'' False),
                                          (''c'', demo_include ''c'' ''C'' False)])
      else if c = ''B'' then Inr (demo_doc [] [(''d'', demo_include ''d'' ''D'' False)])
      else if c = ''C'' then Inr (demo_doc [] [(''d'', demo_include ''d'' ''D'' False)])
      else if c = ''D'' then Inr (demo_doc [] [])
      else Inl (TaskfileDecodeError ''no document''))"

definition cycle_docs :: "string \<Rightarrow> error + taskfile" where
  "cycle_docs c =
     (if c = ''A'' then Inr (demo_doc [] [(''b'', demo_include ''b'' ''B'' False)])
      else if c = ''B'' then Inr (demo_doc [] [(''a'', demo_include ''a'' ''A'' False)])
      else Inl (TaskfileDecodeError ''no document''))"

definition twice_docs :: "string \<Rightarrow> error + taskfile" where
  "twice_docs c =
     (if c = ''A'' then Inr (demo_doc [] [(''b1'', demo_include ''b1'' ''B'' False),
                                          (''b2'', demo_include ''b2'' ''B'' False)])
      else if c = ''B'' then Inr (demo_doc [] [])
      else Inl (TaskfileDecodeError ''no document''))"

definition optional_docs :: "bool \<Rightarrow> string \<Rightarrow> error + taskfile" where
  "optional_docs opt c =
     (if c = ''A'' then Inr (demo_doc [] [(''x'', demo_include ''x'' ''X'' opt)])
      else Inl (TaskfileDecodeError ''no document''))"

text \<open>What the example runs leave in the graph: a vertex with its document, an edge.\<close>

definition demo_vertex :: "location \<Rightarrow> (string \<times> Include) list \<Rightarrow> location \<times> taskfile option" where
  "demo_vertex l incs = (l, Some ((demo_doc [] incs)\<lparr>tfLocation := l\<rparr>))"

definition demo_edge :: "location \<Rightarrow> location \<Rightarrow> Include list \<Rightarrow> edge" where
  "demo_edge s d incs = \<lparr>Source = s, Target = d, Data = incs, Weight = int (length incs)\<rparr>"

text \<open>
  The graph of the document that includes \<open>B\<close> twice, with the includes its edge
  carries.
\<close>

definition twice_graph :: "Include list \<Rightarrow> taskfile_graph" where
  "twice_graph incs =
     \<lparr>vertices =
        [demo_vertex ''A'' [(''b1'', demo_include ''b1'' ''B'' False),
                            (''b2'', demo_include ''b2'' ''B'' False)],
         demo_vertex ''B'' []],
      edges = (if incs = [] then [] else [demo_edge ''A'' ''B'' incs])\<rparr>"

text \<open>
  Schedules and configurations of the example runs. In the schedule of the diamond the
  goroutines of the two includes of \<open>D\<close> run side by side: the one started for \<open>B\<close> adds
  the vertex of \<open>D\<close>, and the one started for \<open>C\<close> finds it and records its edge before
  \<open>D\<close> is read.
\<close>

definition goroutine_at :: "nat option \<Rightarrow> (location \<times> location \<times> Include) option \<Rightarrow> stage \<Rightarrow> goroutine" where
  "goroutine_at p j s = \<lparr>parent = p, job = j, now = s\<rparr>"

definition diamond_schedule :: "nat list" where
  "diamond_schedule = [0, 0, 1, 2, 1, 2, 1, 2, 3, 4, 3, 4, 4, 4, 2, 2, 2, 3, 3, 3, 3, 1, 1, 1, 0, 0]"

definition diamond_config :: config where
  "diamond_config =
     \<lparr>graph =
        \<lparr>vertices =
           [demo_vertex ''A'' [(''b'', demo_include ''b'' ''B'' False),
                               (''c'', demo_include ''c'' ''C'' False)],
            demo_vertex ''B'' [(''d'', demo_include ''d'' ''D'' False)],
            demo_vertex ''C'' [(''d'', demo_include ''d'' ''D'' False)],
            demo_vertex ''D'' []],
         edges =
           [demo_edge ''C'' ''D'' [demo_include ''d'' ''D'' False],
            demo_edge ''A'' ''C'' [demo_include ''c'' ''C'' False],
            demo_edge ''B'' ''D'' [demo_include ''d'' ''D'' False],
            demo_edge ''A'' ''B'' [demo_include ''b'' ''B'' False]]\<rparr>,
      io = empty_world\<lparr>events :=
             [ReadNode ''A'', NodeRead ''A'', Unmarshal ''A'', ReadNode ''B'', NodeRead ''B'',
              Unmarshal ''B'', ReadNode ''C'', NodeRead ''C'', Unmarshal ''C'', ReadNode ''D'',
              NodeRead ''D'', Unmarshal ''D'']\<rparr>,
      pool =
        [goroutine_at None None (Finished None),
         goroutine_at (Some 0) (Some (''A'', ''B'', demo_include ''b'' ''B'' False)) (Finished None),
         goroutine_at (Some 0) (Some (''A'', ''C'', demo_include ''c'' ''C'' False)) (Finished None),
         goroutine_at (Some 1) (Some (''B'', ''D'', demo_include ''d'' ''D'' False)) (Finished None),
         goroutine_at (Some 2) (Some (''C'', ''D'', demo_include ''d'' ''D'' False)) (Finished None)]\<rparr>"

text \<open>
  The diamond when both goroutines are about to call \<^verbatim>\<open>include\<close> for \<open>D\<close>, and when
  the first of them has added the vertex.
\<close>

definition diamond_racing :: "bool \<Rightarrow> config" where
  "diamond_racing claimed =
     \<lparr>graph =
        \<lparr>vertices =
           [demo_vertex ''A'' [(''b'', demo_include ''b'' ''B'' False),
                               (''c'', demo_include ''c'' ''C'' False)],
            demo_vertex ''B'' [(''d'', demo_include ''d'' ''D'' False)],
            demo_vertex ''C'' [(''d'', demo_include ''d'' ''D'' False)]]
           @ (if claimed then [(''D'', None)] else []),
         edges = []\<rparr>,
      io = empty_world\<lparr>events :=
             [ReadNode ''A'', NodeRead ''A'', Unmarshal ''A'', ReadNode ''B'', NodeRead ''B'',
              Unmarshal ''B'', ReadNode ''C'', NodeRead ''C'', Unmarshal ''C'']\<rparr>,
      pool =
        [goroutine_at None None (Waiting None),
         goroutine_at (Some 0) (Some (''A'', ''B'', demo_include ''b'' ''B'' False)) (Waiting None),
         goroutine_at (Some 0) (Some (''A'', ''C'', demo_include ''c'' ''C'' False)) (Waiting None),
         goroutine_at (Some 1) (Some (''B'', ''D'', demo_include ''d'' ''D'' False))
           (if claimed then Loading (LocalNode ''D'') else Claiming (LocalNode ''D'')),
         goroutine_at (Some 2) (Some (''C'', ''D'', demo_include ''d'' ''D'' False))
           (Claiming (LocalNode ''D''))]\<rparr>"

text \<open>
  The run on the cycle: its schedule up to the critical section of the edge from \<open>A\<close> to
  \<open>B\<close>, the configuration there, and the rest of the schedule.
\<close>

definition cycle_schedule :: "nat list" where
  "cycle_schedule = [0, 0, 1, 1, 1, 2, 2, 2, 2, 1]"

definition cycle_rest :: "nat list" where
  "cycle_rest = [1, 1, 0, 0]"

definition cycle_config :: config where
  "cycle_config =
     \<lparr>graph =
        \<lparr>vertices =
           [demo_vertex ''A'' [(''b'', demo_include ''b'' ''B'' False)],
            demo_vertex ''B'' [(''a'', demo_include ''a'' ''A'' False)]],
         edges = [demo_edge ''B'' ''A'' [demo_include ''a'' ''A'' False]]\<rparr>,
      io = empty_world\<lparr>events :=
             [ReadNode ''A'', NodeRead ''A'', Unmarshal ''A'', ReadNode ''B'', NodeRead ''B'',
              Unmarshal ''B'']\<rparr>,
      pool =
        [goroutine_at None None (Waiting None),
         goroutine_at (Some 0) (Some (''A'', ''B'', demo_include ''b'' ''B'' False)) Linking,
         goroutine_at (Some 1) (Some (''B'', ''A'', demo_include ''a'' ''A'' False)) (Finished None)]\<rparr>"

text \<open>The run on a document whose only include cannot be constructed.\<close>

definition optional_schedule :: "nat list" where
  "optional_schedule = [0, 0, 1, 1, 0, 0]"

definition optional_graph :: "bool \<Rightarrow> taskfile_graph" where
  "optional_graph opt =
     \<lparr>vertices = [demo_vertex ''A'' [(''x'', demo_include ''x'' ''X'' opt)]], edges = []\<rparr>"

text \<open>
  The moment of that run where the document is read and the goroutine of its include
  has not started.
\<close>

definition optional_config :: "bool \<Rightarrow> config" where
  "optional_config opt =
     \<lparr>graph = optional_graph opt,
      io = empty_world\<lparr>events := [ReadNode ''A'', NodeRead ''A'', Unmarshal ''A'']\<rparr>,
      pool =
        [goroutine_at None None (Waiting None),
         goroutine_at (Some 0) None
           (Resolving (LocalNode ''A'')
              ((demo_doc [] [(''x'', demo_include ''x'' ''X'' opt)])\<lparr>tfLocation := ''A''\<rparr>)
              (demo_include ''x'' ''X'' opt))]\<rparr>"

text \<open>
  A document whose optional include can be constructed and has no document to decode:
  the schedule of its run, and the moment where the goroutine of the include has claimed
  the vertex of \<open>B\<close> and stands before the read.
\<close>

definition broken_docs :: "string \<Rightarrow> error + taskfile" where
  "broken_docs c =
     (if c = ''A'' then Inr (demo_doc [] [(''b'', demo_include ''b'' ''B'' True)])
      else Inl (TaskfileDecodeError ''no document''))"

definition broken_schedule :: "nat list" where
  "broken_schedule = [0, 0, 1, 1, 1, 1, 0, 0]"

definition broken_config :: config where
  "broken_config =
     \<lparr>graph =
        \<lparr>vertices = [demo_vertex ''A'' [(''b'', demo_include ''b'' ''B'' True)], (''B'', None)],
         edges = []\<rparr>,
      io = empty_world\<lparr>events := [ReadNode ''A'', NodeRead ''A'', Unmarshal ''A'']\<rparr>,
      pool =
        [goroutine_at None None (Waiting None),
         goroutine_at (Some 0) (Some (''A'', ''B'', demo_include ''b'' ''B'' True))
           (Loading (LocalNode ''B''))]\<rparr>"

text \<open>
  Two schedules for the document that includes \<open>B\<close> twice: the goroutine of the first
  include, or that of the second, claims the vertex of \<open>B\<close> and links first.
\<close>

definition twice_schedule :: "bool \<Rightarrow> nat list" where
  "twice_schedule first =
     [0, 0, 1, 2] @ (if first then [1, 1, 1, 1, 1, 2, 2, 2] else [2, 2, 2, 2, 2, 1, 1, 1]) @ [0, 0]"

lemmas demo_defs =
  goroutine_at_def diamond_schedule_def diamond_config_def diamond_racing_def
  cycle_schedule_def cycle_rest_def cycle_config_def optional_schedule_def optional_graph_def optional_config_def
  broken_docs_def broken_schedule_def broken_config_def
  twice_schedule_def twice_graph_def demo_vertex_def demo_edge_def
  demo_include_def demo_doc_def tasks_docs_def
  demo_env_def demo_reader_def demo_source_def empty_world_def cached_world_def
  net_ok_def net_timeout_def net_timeout_configured_def decline_def accept_def no_docs_def
  demo_NewNode_def
  demo_checksum_def demo_node_Read_def demo_Replace_def demo_ResolveEntrypoint_def
  demo_ResolveDir_def no_fault_def diamond_docs_def cycle_docs_def twice_docs_def
  optional_docs_def

section \<open>The remote load and trust workflow\<close>


text \<open>
  C4: when the checksum of the content just fetched equals the checksum the cache holds
  for the source, \<open>loadNode\<close> hands back the fetched node; the only things it does are
  the fetch, a trace, the read of the cached checksum and the computation of the new
  one: no prompt, no cache write, and the cache is the one it started with.
\<close>

theorem loadNode_checksum_match:
  assumes "NewCache_fault E (tempDir r) = None" and "\<not> offline r"
    and "remote_Read E l = Inr src" and "checksumSource E src = Inr c"
    and "cache w l = Some ent" and "digest ent = c" and "c \<noteq> []"
  shows "loadNode E r (RemoteNode l) w =
           (Inr (RemoteNode l),
            w\<lparr>events := events w @ [NetworkFetch l, VerboseOutf ''Fetched remote copy'' l,
                                     ChecksumRead l, ChecksumComputed]\<rparr>)"
  using assms
  by (simp add: loadNode_def trust_fetched_def cache_readChecksum_def choose_prompt_def emit_def)

theorem loadNode_checksum_match_witness:
  "loadNode (demo_env net_ok decline no_docs) (demo_reader False False)
     (RemoteNode ''R'') (cached_world ''R'' ''sum:version: 3'') =
   (Inr (RemoteNode ''R''),
    (cached_world ''R'' ''sum:version: 3'')\<lparr>events :=
       [NetworkFetch ''R'', VerboseOutf ''Fetched remote copy'' ''R'',
        ChecksumRead ''R'', ChecksumComputed]\<rparr>)"
  using loadNode_checksum_match [of "demo_env net_ok decline no_docs" "demo_reader False False"
      "''R''" demo_source "''sum:version: 3''" "cached_world ''R'' ''sum:version: 3''"
      "\<lparr>content = demo_source, digest = ''sum:version: 3''\<rparr>"]
  by (simp add: demo_defs)

text \<open>
  C5: when a prompt is due (the cache holds no checksum for the source, or one that
  differs from the checksum of the content just fetched) and the user declines,
  \<open>loadNode\<close> fails with the not-trusted error of the location of the source. The prompt
  is the last thing that happens: the cache is not written, and \<open>readNode\<close> fails with
  the same error before it reads or decodes anything.
\<close>

theorem loadNode_declined_not_trusted:
  assumes "NewCache_fault E (tempDir r) = None" and "\<not> offline r"
    and "remote_Read E l = Inr src" and "checksumSource E src = Inr c"
    and "choose_prompt l (fst (cache_readChecksum l w)) c = Some p"
    and "\<not> Prompt_accepted E p"
  shows "loadNode E r (RemoteNode l) w =
           (Inl (TaskfileNotTrustedError l),
            w\<lparr>events := events w @ [NetworkFetch l, VerboseOutf ''Fetched remote copy'' l,
                                     ChecksumRead l, ChecksumComputed, Prompted p]\<rparr>)
       \<and> readNode E r (RemoteNode l) w =
           (Inl (TaskfileNotTrustedError l),
            w\<lparr>events := events w @ [ReadNode l, NetworkFetch l,
                                     VerboseOutf ''Fetched remote copy'' l,
                                     ChecksumRead l, ChecksumComputed, Prompted p]\<rparr>)"
  using assms
  by (auto simp add: readNode_def loadNode_def trust_fetched_def cache_readChecksum_def emit_def
           split: option.splits)

theorem loadNode_declined_not_trusted_witness:
  "readNode (demo_env net_ok decline no_docs) (demo_reader False False)
     (RemoteNode ''R'') empty_world =
   (Inl (TaskfileNotTrustedError ''R''),
    empty_world\<lparr>events := [ReadNode ''R'', NetworkFetch ''R'',
                            VerboseOutf ''Fetched remote copy'' ''R'', ChecksumRead ''R'',
                            ChecksumComputed, Prompted (taskfileUntrustedPrompt ''R'')]\<rparr>)"
  using loadNode_declined_not_trusted [of "demo_env net_ok decline no_docs"
      "demo_reader False False" "''R''" demo_source "''sum:version: 3''" empty_world
      "taskfileUntrustedPrompt ''R''"]
  by (simp add: demo_defs cache_readChecksum_def choose_prompt_def)



text \<open>
  C10: when the fetch times out, neither offline nor forced download is set and the
  cache has an entry for the source, \<open>loadNode\<close> hands back the cached copy. It fetches,
  reads the cache and traces, and nothing else: no checksum is read or computed, no
  prompt is issued, the cache is not written.
\<close>

theorem loadNode_timeout_fallback:
  assumes "NewCache_fault E (tempDir r) = None" and "\<not> offline r" and "\<not> download r"
    and "remote_Read E l = Inl (TaskfileNetworkTimeoutError u t c)"
    and "cache_read_fault E l = None" and "cache w l = Some ent"
  shows "loadNode E r (RemoteNode l) w =
           (Inr (CacheNode l),
            w\<lparr>events := events w @ [NetworkFetch l, CacheRead l,
                                     VerboseOutf ''Network timeout. Fetched cached copy'' l]\<rparr>)"
  using assms
  by (auto simp add: loadNode_def timed_out_def cache_read_def emit_def)

theorem loadNode_timeout_fallback_witness:
  "loadNode (demo_env net_timeout decline no_docs) (demo_reader False False)
     (RemoteNode ''R'') (cached_world ''R'' ''stale'') =
   (Inr (CacheNode ''R''),
    (cached_world ''R'' ''stale'')\<lparr>events :=
       [NetworkFetch ''R'', CacheRead ''R'',
        VerboseOutf ''Network timeout. Fetched cached copy'' ''R'']\<rparr>)"
  using loadNode_timeout_fallback [of "demo_env net_timeout decline no_docs"
      "demo_reader False False" "''R''" "''R''" 5 False "cached_world ''R'' ''stale''"
      "\<lparr>content = demo_source, digest = ''stale''\<rparr>"]
  by (simp add: demo_defs)

text \<open>
  When the fetch fails with a network timeout error, then with forced download
  \<open>loadNode\<close> fails at once with a network timeout error that carries the timeout of the
  error of the fetch (line 259), and the cache is not read; without forced download it
  reads the cache, and when the cache has no entry for the source it fails with a
  network timeout error flagged as cache-checked that carries the timeout of the reader
  (line 265).
\<close>

lemma loadNode_timeout_errors:
  assumes "NewCache_fault E (tempDir r) = None" and "\<not> offline r"
    and "remote_Read E l = Inl (TaskfileNetworkTimeoutError u t c)"
  shows "(download r \<longrightarrow>
            loadNode E r (RemoteNode l) w =
              (Inl (TaskfileNetworkTimeoutError l t False),
               w\<lparr>events := events w @ [NetworkFetch l]\<rparr>))
       \<and> (\<not> download r \<and> cache_read_fault E l = None \<and> cache w l = None \<longrightarrow>
            loadNode E r (RemoteNode l) w =
              (Inl (TaskfileNetworkTimeoutError l (timeout r) True),
               w\<lparr>events := events w @ [NetworkFetch l, CacheRead l]\<rparr>))"
  using assms
  by (auto simp add: loadNode_def timed_out_def cache_read_def emit_def)

text \<open>
  C7: the fetch of a remote node is bounded by the configured timeout, and its timeout
  error carries that timeout (the contract of \<^verbatim>\<open>Read\<close>; line 130 constructs the nodes
  with the timeout of the reader). When the fetch fails so, then with forced download
  \<open>loadNode\<close> fails at once with a network timeout error, without reading the cache;
  without forced download it reads the cache, and when the cache has no entry it fails
  with a network timeout error flagged as cache-checked. Both errors name the location
  and report the configured timeout.
\<close>

theorem loadNode_timeout_reports_configured:
  assumes "NewCache_fault E (tempDir r) = None" and "\<not> offline r"
    and "remote_Read E l = Inl (TaskfileNetworkTimeoutError u (timeout r) c)"
  shows "(download r \<longrightarrow>
            loadNode E r (RemoteNode l) w =
              (Inl (TaskfileNetworkTimeoutError l (timeout r) False),
               w\<lparr>events := events w @ [NetworkFetch l]\<rparr>))
       \<and> (\<not> download r \<and> cache_read_fault E l = None \<and> cache w l = None \<longrightarrow>
            loadNode E r (RemoteNode l) w =
              (Inl (TaskfileNetworkTimeoutError l (timeout r) True),
               w\<lparr>events := events w @ [NetworkFetch l, CacheRead l]\<rparr>))"
  using loadNode_timeout_errors [OF assms] .

theorem loadNode_timeout_reports_configured_witness:
  "loadNode (demo_env net_timeout_configured decline no_docs) (demo_reader True False)
     (RemoteNode ''R'') (cached_world ''R'' ''stale'') =
   (Inl (TaskfileNetworkTimeoutError ''R'' 10 False),
    (cached_world ''R'' ''stale'')\<lparr>events := [NetworkFetch ''R'']\<rparr>)
   \<and> loadNode (demo_env net_timeout_configured decline no_docs) (demo_reader False False)
     (RemoteNode ''R'') empty_world =
   (Inl (TaskfileNetworkTimeoutError ''R'' 10 True),
    empty_world\<lparr>events := [NetworkFetch ''R'', CacheRead ''R'']\<rparr>)
   \<and> timeout (demo_reader True False) = 10 \<and> timeout (demo_reader False False) = 10"
  using loadNode_timeout_reports_configured [of "demo_env net_timeout_configured decline no_docs"
      "demo_reader True False" "''R''" "''R''" False "cached_world ''R'' ''stale''"]
    loadNode_timeout_reports_configured [of "demo_env net_timeout_configured decline no_docs"
      "demo_reader False False" "''R''" "''R''" False empty_world]
  by (simp add: demo_defs)

section \<open>The location stamps of the tasks\<close>

lemma stamp_task_fields:
  "Location_Taskfile (stamp_task loc dir t) =
     (if Location_Taskfile t = [] then loc else Location_Taskfile t)"
  "Location_TaskfileDir (stamp_task loc dir t) =
     (if Location_TaskfileDir t = [] then dir else Location_TaskfileDir t)"
  "Task (stamp_task loc dir t) = Task t"
  by (simp_all add: stamp_task_def)

text \<open>A second stamp changes nothing once both fields are set.\<close>

lemma stamp_task_idem:
  "loc \<noteq> [] \<Longrightarrow> dir \<noteq> [] \<Longrightarrow>
   stamp_task loc' dir' (stamp_task loc dir t) = stamp_task loc dir t"
  by (simp add: stamp_task_def)

lemma readNode_Inr:
  assumes "readNode E r n w = (Inr (tf, node1), w')"
  shows "\<exists>src tf0. node_Read E node1 = Inr src \<and> yaml_Unmarshal E (FileContent src) = Inr tf0
            \<and> tf = stamp_taskfile (Location node1) (FileDirectory src) tf0"
  using assms
  by (auto simp add: readNode_def Let_def split: prod.splits sum.splits if_splits)

lemma stamp_taskfile_nth:
  assumes "i < length (Tasks tf0)" and "Tasks tf0 ! i = (name, v)"
  shows "Tasks (stamp_taskfile loc dir tf0) ! i = (name, stamp_value loc dir v)"
  using assms by (simp add: stamp_taskfile_def)

text \<open>A task name without a definition stays without one.\<close>

lemma stamp_taskfile_nil:
  assumes "i < length (Tasks tf0)" and "Tasks tf0 ! i = (name, None)"
  shows "Tasks (stamp_taskfile loc dir tf0) ! i = (name, None)"
  using stamp_taskfile_nth [OF assms] by simp

text \<open>
  C9: when \<open>readNode\<close> succeeds, the document it hands back is the decoded one with its
  location set, and with every defined task at its place under its name: the task's
  Taskfile is the location of the document if it was empty and is kept otherwise, and
  the task's directory is the directory of the read if it was empty and is kept
  otherwise.
\<close>

theorem readNode_stamps_tasks:
  assumes "readNode E r n w = (Inr (tf, node1), w')"
  shows "\<exists>src tf0. node_Read E node1 = Inr src \<and> yaml_Unmarshal E (FileContent src) = Inr tf0
           \<and> tfLocation tf = Location node1
           \<and> length (Tasks tf) = length (Tasks tf0)
           \<and> (\<forall>i < length (Tasks tf0). \<forall>name t. Tasks tf0 ! i = (name, Some t) \<longrightarrow>
                (\<exists>t'. Tasks tf ! i = (name, Some t')
                   \<and> Task t' = Task t
                   \<and> Location_Taskfile t' =
                       (if Location_Taskfile t = [] then Location node1 else Location_Taskfile t)
                   \<and> Location_TaskfileDir t' =
                       (if Location_TaskfileDir t = [] then FileDirectory src
                        else Location_TaskfileDir t)))"
proof -
  from readNode_Inr [OF assms] obtain src tf0 where
    rd: "node_Read E node1 = Inr src" and um: "yaml_Unmarshal E (FileContent src) = Inr tf0"
    and tf: "tf = stamp_taskfile (Location node1) (FileDirectory src) tf0"
    by blast
  have loc: "tfLocation tf = Location node1" and len: "length (Tasks tf) = length (Tasks tf0)"
    by (simp_all add: tf stamp_taskfile_def)
  have each: "\<exists>t'. Tasks tf ! i = (name, Some t')
                   \<and> Task t' = Task t
                   \<and> Location_Taskfile t' =
                       (if Location_Taskfile t = [] then Location node1 else Location_Taskfile t)
                   \<and> Location_TaskfileDir t' =
                       (if Location_TaskfileDir t = [] then FileDirectory src
                        else Location_TaskfileDir t)"
    if "i < length (Tasks tf0)" and "Tasks tf0 ! i = (name, Some t)" for i name t
    using stamp_taskfile_nth [OF that] by (simp add: tf stamp_task_fields)
  from rd um loc len each show ?thesis by blast
qed

theorem readNode_stamps_tasks_witness:
  "readNode (demo_env net_ok decline tasks_docs) (demo_reader False False) (LocalNode ''A'')
     empty_world =
   (Inr (\<lparr>Version = Some ''3'', tfVars = Map.empty,
          Tasks = [(''build'', Some \<lparr>Task = ''build'', Location_Taskfile = ''A'',
                                      Location_TaskfileDir = ''/preset''\<rparr>),
                   (''empty'', None)],
          Includes = [], tfLocation = ''A''\<rparr>, LocalNode ''A''),
    empty_world\<lparr>events := [ReadNode ''A'', NodeRead ''A'', Unmarshal ''A'']\<rparr>)"
proof -
  have run: "readNode (demo_env net_ok decline tasks_docs) (demo_reader False False)
      (LocalNode ''A'') empty_world =
    (Inr (stamp_taskfile ''A'' ''/'' (demo_doc
            [(''build'', Some \<lparr>Task = ''build'', Location_Taskfile = [],
                                Location_TaskfileDir = ''/preset''\<rparr>),
             (''empty'', None)] []), LocalNode ''A''),
     empty_world\<lparr>events := [ReadNode ''A'', NodeRead ''A'', Unmarshal ''A'']\<rparr>)"
    by (simp add: readNode_def loadNode_def emit_def demo_defs)
  show ?thesis
    using readNode_stamps_tasks [OF run]
    by (simp only: run) (simp add: stamp_taskfile_def stamp_task_def demo_doc_def)
qed

section \<open>The graph stays acyclic\<close>

lemma edge_pairs_append:
  "edge_pairs (es @ [e]) = insert (Source e, Target e) (edge_pairs es)"
  by (simp add: edge_pairs_def)

lemma edge_pairs_rewrite:
  "edge_pairs (map (\<lambda>e. if Source e = s \<and> Target e = d then e\<lparr>Data := x, Weight := y\<rparr> else e) es)
     = edge_pairs es"
  by (induction es) (simp_all add: edge_pairs_def)

lemma find_edge_pair:
  assumes "find (\<lambda>e. Source e = s \<and> Target e = d) es = Some e"
  shows "(s, d) \<in> edge_pairs es" and "Source e = s" and "Target e = d"
  using assms by (auto simp add: find_Some_iff edge_pairs_def image_iff)

lemma acyclic_no_creates_cycle:
  assumes ac: "acyclic (edge_pairs es)" and mem: "(s, d) \<in> edge_pairs es"
  shows "\<not> creates_cycle es s d"
proof
  assume "creates_cycle es s d"
  then consider "s = d" | "(d, s) \<in> (edge_pairs es)\<^sup>+" by (auto simp add: creates_cycle_def)
  then have "(s, s) \<in> (edge_pairs es)\<^sup>+"
  proof cases
    case 1
    with mem show ?thesis by auto
  next
    case 2
    with mem show ?thesis by (meson trancl_into_trancl2)
  qed
  with ac show False by (simp add: acyclic_def)
qed

lemma AddEdge_acyclic:
  assumes "acyclic (edge_pairs (edges g))" and "AddEdge g s d x y = (err, g1)"
  shows "acyclic (edge_pairs (edges g1))"
proof (cases "creates_cycle (edges g) s d")
  case True
  with assms show ?thesis by (simp add: AddEdge_def)
next
  case False
  then have "(d, s) \<notin> (edge_pairs (edges g))\<^sup>*"
    by (auto simp add: creates_cycle_def rtrancl_eq_or_trancl)
  with assms False show ?thesis
    by (auto simp add: AddEdge_def edge_pairs_append acyclic_insert)
qed

lemma UpdateEdge_acyclic:
  assumes "acyclic (edge_pairs (edges g))" and "UpdateEdge g s d x y = (err, g1)"
  shows "acyclic (edge_pairs (edges g1))"
  using assms by (auto simp add: UpdateEdge_def edge_pairs_rewrite split: if_splits)

lemma link_acyclic:
  assumes "acyclic (edge_pairs (edges g))" and "link g s d i = (err, g1)"
  shows "acyclic (edge_pairs (edges g1))"
  using assms
  by (auto simp add: link_def Let_def split: sum.splits prod.splits if_splits
      dest: AddEdge_acyclic UpdateEdge_acyclic)

lemma link_vertices:
  assumes "link g s d i = (err, g1)"
  shows "vertices g1 = vertices g"
  using assms
  by (auto simp add: link_def AddEdge_def UpdateEdge_def Let_def
      split: sum.splits prod.splits if_splits)

lemma link_rejects_cycle:
  assumes "creates_cycle (edges g) s d"
  shows "link g s d i = (Some (TaskfileCycleError s d), g)"
  using assms
  by (auto simp add: link_def Edge_def AddEdge_def UpdateEdge_def Let_def
      split: sum.splits option.splits)

lemma AddVertex_edges: "AddVertex l g = Inr g1 \<Longrightarrow> edges g1 = edges g"
  by (auto simp add: AddVertex_def split: if_splits)

section \<open>What readNode leaves in the log\<close>

lemma read_locations_append:
  "read_locations (xs @ ys) = read_locations xs @ read_locations ys"
  by (induction xs rule: read_locations.induct) simp_all

lemma unmarshal_locations_append:
  "unmarshal_locations (xs @ ys) = unmarshal_locations xs @ unmarshal_locations ys"
  by (induction xs rule: unmarshal_locations.induct) simp_all

lemmas locations_append = read_locations_append unmarshal_locations_append

lemma cache_read_quiet:
  assumes "cache_read E l w = (res, w1)"
  shows "read_locations (events w1) = read_locations (events w)
       \<and> unmarshal_locations (events w1) = unmarshal_locations (events w)
       \<and> (\<forall>c. res = Inr c \<longrightarrow> Location c = l)"
  using assms
  by (auto simp add: cache_read_def emit_def Let_def locations_append split: option.splits)

lemma cache_write_quiet:
  assumes "cache_write E l src w = (res, w1)"
  shows "read_locations (events w1) = read_locations (events w)
       \<and> unmarshal_locations (events w1) = unmarshal_locations (events w)
       \<and> (\<forall>c. res = Inr c \<longrightarrow> Location c = l)"
  using assms
  by (auto simp add: cache_write_def emit_def Let_def locations_append split: option.splits sum.splits)

lemma trust_fetched_quiet:
  assumes "trust_fetched E l src w = (res, w1)"
  shows "read_locations (events w1) = read_locations (events w)
       \<and> unmarshal_locations (events w1) = unmarshal_locations (events w)
       \<and> (\<forall>c. res = Inr c \<longrightarrow> Location c = l)"
  using assms
  by (auto simp add: trust_fetched_def cache_readChecksum_def emit_def Let_def locations_append
      split: option.splits sum.splits if_splits prod.splits dest!: cache_write_quiet)

lemma timed_out_quiet:
  assumes "timed_out E r l t w = (res, w1)"
  shows "read_locations (events w1) = read_locations (events w)
       \<and> unmarshal_locations (events w1) = unmarshal_locations (events w)
       \<and> (\<forall>c. res = Inr c \<longrightarrow> Location c = l)"
  using assms
  by (auto simp add: timed_out_def emit_def Let_def locations_append
      split: option.splits sum.splits if_splits prod.splits dest!: cache_read_quiet)

lemma loadNode_quiet:
  assumes "loadNode E r n w = (res, w1)"
  shows "read_locations (events w1) = read_locations (events w)
       \<and> unmarshal_locations (events w1) = unmarshal_locations (events w)
       \<and> (\<forall>c. res = Inr c \<longrightarrow> Location c = Location n)"
  using assms
  by (auto simp add: loadNode_def emit_def Let_def locations_append
      split: node.splits option.splits sum.splits if_splits prod.splits error.splits
      dest!: cache_read_quiet timed_out_quiet trust_fetched_quiet)


lemma readNode_events:
  assumes "readNode E r n w = (res, w1)"
  shows "read_locations (events w1) = read_locations (events w) @ [Location n]
       \<and> (unmarshal_locations (events w1) = unmarshal_locations (events w)
          \<or> unmarshal_locations (events w1) = unmarshal_locations (events w) @ [Location n])"
  using assms
  by (auto simp add: readNode_def emit_def Let_def locations_append
      split: prod.splits sum.splits if_splits dest!: loadNode_quiet)

lemma AddVertex_Inr:
  assumes "AddVertex l g = Inr g1"
  shows "l \<notin> set (map fst (vertices g)) \<and> vertices g1 = vertices g @ [(l, None)]
       \<and> edges g1 = edges g"
  using assms by (auto simp add: AddVertex_def split: if_splits)

lemma set_Taskfile_keys:
  "map fst (vertices (set_Taskfile l tf g)) = map fst (vertices g)"
  by (induction "vertices g" arbitrary: g) (auto simp add: set_Taskfile_def split: prod.splits)

section \<open>Evaluating the cycle test\<close>

text \<open>
  A vertex without an edge into it closes no cycle, and the reverse of an edge of the
  graph does: enough to evaluate the cycle test of the example runs.
\<close>

lemma creates_cycle_needs_in_edge:
  assumes "creates_cycle es s d" and "s \<noteq> d"
  shows "s \<in> set (map Target es)"
proof -
  from assms have "(d, s) \<in> (edge_pairs es)\<^sup>+" by (simp add: creates_cycle_def)
  then have "s \<in> Range (edge_pairs es)" by (metis Range_iff tranclE)
  then show ?thesis by (auto simp add: edge_pairs_def)
qed

lemma no_cycle_fresh_source:
  "s \<noteq> d \<Longrightarrow> s \<notin> set (map Target es) \<Longrightarrow> creates_cycle es s d = False"
  using creates_cycle_needs_in_edge by blast

lemma creates_cycle_back_edge:
  "(d, s) \<in> edge_pairs es \<Longrightarrow> creates_cycle es s d = True"
  by (auto simp add: creates_cycle_def)

section \<open>Edges merge their includes\<close>

lemma find_None_pair:
  "find (\<lambda>e. Source e = s \<and> Target e = d) es = None \<longleftrightarrow> (s, d) \<notin> edge_pairs es"
  by (auto simp add: find_None_iff edge_pairs_def image_iff)

lemma rewrite_no_match:
  assumes "(s, d) \<notin> edge_pairs es"
  shows "map (\<lambda>e. if Source e = s \<and> Target e = d then f e else e) es = es"
    and "filter (\<lambda>e. Source e = s \<and> Target e = d) es = []"
  using assms by (induction es) (auto simp add: edge_pairs_def)

lemma find_snoc:
  "find P (xs @ [x]) = (case find P xs of Some y \<Rightarrow> Some y | None \<Rightarrow> if P x then Some x else None)"
  by (induction xs) auto

lemma find_rewrite:
  assumes "find (\<lambda>e. Source e = s \<and> Target e = d) es = Some e"
  shows "find (\<lambda>e. Source e = s \<and> Target e = d)
           (map (\<lambda>x. if Source x = s \<and> Target x = d then x\<lparr>Data := a, Weight := b\<rparr> else x) es)
         = Some (e\<lparr>Data := a, Weight := b\<rparr>)"
  using assms by (induction es) (auto split: if_splits)

lemma find_rewrite_other:
  assumes "(s', d') \<noteq> (s, d)"
  shows "find (\<lambda>e. Source e = s' \<and> Target e = d')
           (map (\<lambda>x. if Source x = s \<and> Target x = d then x\<lparr>Data := a, Weight := b\<rparr> else x) es)
         = find (\<lambda>e. Source e = s' \<and> Target e = d') es"
  using assms by (induction es) auto

lemma link_existing:
  assumes e: "Edge g s d = Inr e" and ac: "acyclic (edge_pairs (edges g))"
  shows "link g s d i =
           (None, g\<lparr>edges := map (\<lambda>x. if Source x = s \<and> Target x = d
                                        then x\<lparr>Data := Data e @ [i],
                                               Weight := int (length (Data e @ [i]))\<rparr>
                                        else x) (edges g)\<rparr>)"
proof -
  from e have f: "find (\<lambda>e. Source e = s \<and> Target e = d) (edges g) = Some e"
    by (auto simp add: Edge_def split: option.splits)
  from acyclic_no_creates_cycle [OF ac find_edge_pair(1) [OF f]]
  have "\<not> creates_cycle (edges g) s d" .
  with e f show ?thesis by (simp add: link_def UpdateEdge_def Let_def)
qed

lemma link_new:
  assumes e: "Edge g s d = Inl err" and nc: "\<not> creates_cycle (edges g) s d"
  shows "link g s d i =
           (None, g\<lparr>edges := edges g @ [\<lparr>Source = s, Target = d, Data = [i], Weight = 1\<rparr>]\<rparr>)"
  using assms by (simp add: link_def AddEdge_def)

text \<open>
  C3: in an acyclic graph, recording an include for a pair of locations that has an
  edge already succeeds and rewrites that edge: it carries the list it had with the new
  include at its end, its weight is the length of that list, and no edge is added or
  otherwise changed. Recording two includes for a pair without an edge leaves one edge
  for the pair, with both includes and weight 2.
\<close>

theorem link_merges_includes:
  assumes ac: "acyclic (edge_pairs (edges g))"
  shows "(Edge g s d = Inr e \<longrightarrow>
            fst (link g s d i) = None
          \<and> Edge (snd (link g s d i)) s d =
              Inr (e\<lparr>Data := Data e @ [i], Weight := int (length (Data e @ [i]))\<rparr>)
          \<and> length (edges (snd (link g s d i))) = length (edges g)
          \<and> vertices (snd (link g s d i)) = vertices g
          \<and> (\<forall>s' d'. (s', d') \<noteq> (s, d) \<longrightarrow> Edge (snd (link g s d i)) s' d' = Edge g s' d'))
       \<and> (Edge g s d = Inl ErrEdgeNotFound \<and> \<not> creates_cycle (edges g) s d \<longrightarrow>
            fst (link g s d i1) = None
          \<and> fst (link (snd (link g s d i1)) s d i2) = None
          \<and> filter (\<lambda>x. Source x = s \<and> Target x = d)
               (edges (snd (link (snd (link g s d i1)) s d i2))) =
              [\<lparr>Source = s, Target = d, Data = [i1, i2], Weight = 2\<rparr>])"
proof (intro conjI impI)
  assume e: "Edge g s d = Inr e"
  then have f: "find (\<lambda>e. Source e = s \<and> Target e = d) (edges g) = Some e"
    by (auto simp add: Edge_def split: option.splits)
  note l = link_existing [OF e ac, of i]
  show "fst (link g s d i) = None" by (simp add: l)
  show "Edge (snd (link g s d i)) s d =
          Inr (e\<lparr>Data := Data e @ [i], Weight := int (length (Data e @ [i]))\<rparr>)"
    by (simp add: l Edge_def find_rewrite [OF f] del: length_append)
  show "length (edges (snd (link g s d i))) = length (edges g)" by (simp add: l)
  show "vertices (snd (link g s d i)) = vertices g" by (simp add: l)
  show "\<forall>s' d'. (s', d') \<noteq> (s, d) \<longrightarrow> Edge (snd (link g s d i)) s' d' = Edge g s' d'"
    by (simp add: l Edge_def find_rewrite_other del: length_append)
next
  assume a: "Edge g s d = Inl ErrEdgeNotFound \<and> \<not> creates_cycle (edges g) s d"
  let ?new = "\<lparr>Source = s, Target = d, Data = [i1], Weight = 1\<rparr>"
  let ?g1 = "g\<lparr>edges := edges g @ [?new]\<rparr>"
  from a have l1: "link g s d i1 = (None, ?g1)" by (simp add: link_new)
  from a have none: "(s, d) \<notin> edge_pairs (edges g)"
    by (simp add: Edge_def find_None_pair [symmetric] split: option.splits)
  then have "find (\<lambda>e. Source e = s \<and> Target e = d) (edges g) = None"
    by (simp add: find_None_pair)
  then have f1: "find (\<lambda>e. Source e = s \<and> Target e = d) (edges ?g1) = Some ?new"
    by (simp add: find_snoc)
  then have e1: "Edge ?g1 s d = Inr ?new" by (simp add: Edge_def)
  have "AddEdge g s d [i1] 1 = (None, ?g1)" using a by (simp add: AddEdge_def)
  from AddEdge_acyclic [OF ac this] have ac1: "acyclic (edge_pairs (edges ?g1))" .
  note l2 = link_existing [OF e1 ac1, of i2]
  show "fst (link g s d i1) = None" by (simp add: l1)
  show "fst (link (snd (link g s d i1)) s d i2) = None" by (simp add: l1 l2)
  show "filter (\<lambda>x. Source x = s \<and> Target x = d)
          (edges (snd (link (snd (link g s d i1)) s d i2))) =
        [\<lparr>Source = s, Target = d, Data = [i1, i2], Weight = 2\<rparr>]"
    using rewrite_no_match [OF none] by (simp add: l1 l2)
qed

lemma acyclic_no_edges: "acyclic (edge_pairs [])"
  by (simp add: edge_pairs_def acyclic_def)

lemma acyclic_one_edge: "s \<noteq> d \<Longrightarrow> acyclic (edge_pairs [\<lparr>Source = s, Target = d, Data = x, Weight = y\<rparr>])"
  using acyclic_no_edges by (simp add: edge_pairs_def acyclic_insert)

theorem link_merges_includes_witness:
  "fst (link (twice_graph [demo_include ''b1'' ''B'' False]) ''A'' ''B''
          (demo_include ''b2'' ''B'' False)) = None
   \<and> Edge (snd (link (twice_graph [demo_include ''b1'' ''B'' False]) ''A'' ''B''
                  (demo_include ''b2'' ''B'' False))) ''A'' ''B'' =
       Inr (demo_edge ''A'' ''B'' [demo_include ''b1'' ''B'' False, demo_include ''b2'' ''B'' False])
   \<and> filter (\<lambda>x. Source x = ''A'' \<and> Target x = ''B'')
        (edges (snd (link (snd (link (twice_graph []) ''A'' ''B'' (demo_include ''b1'' ''B'' False)))
                      ''A'' ''B'' (demo_include ''b2'' ''B'' False)))) =
       [demo_edge ''A'' ''B'' [demo_include ''b1'' ''B'' False, demo_include ''b2'' ''B'' False]]"
proof -
  let ?b1 = "demo_include ''b1'' ''B'' False" and ?b2 = "demo_include ''b2'' ''B'' False"
  have ac1: "acyclic (edge_pairs (edges (twice_graph [?b1])))"
    by (simp add: acyclic_one_edge demo_defs)
  have ac0: "acyclic (edge_pairs (edges (twice_graph [])))"
    by (simp add: acyclic_no_edges demo_defs)
  have e1: "Edge (twice_graph [?b1]) ''A'' ''B'' = Inr (demo_edge ''A'' ''B'' [?b1])"
    by (simp add: Edge_def demo_defs)
  have e0: "Edge (twice_graph []) ''A'' ''B'' = Inl ErrEdgeNotFound"
    by (simp add: Edge_def demo_defs)
  have nc: "\<not> creates_cycle (edges (twice_graph [])) ''A'' ''B''"
    by (simp add: no_cycle_fresh_source demo_defs)
  from link_merges_includes [OF ac1, of "''A''" "''B''" "demo_edge ''A'' ''B'' [?b1]" ?b2] e1
    link_merges_includes [OF ac0, of "''A''" "''B''" _ _ ?b1 ?b2] e0 nc
  show ?thesis
    by (simp add: demo_edge_def)
qed


section \<open>The steps of a goroutine\<close>

text \<open>Every step is of one of eleven kinds.\<close>

lemma AddVertex_Inl:
  assumes "AddVertex l g = Inl e"
  shows "e = ErrVertexAlreadyExists \<and> l \<in> set (map fst (vertices g))"
  using assms by (auto simp add: AddVertex_def split: if_splits)

lemma step_cases [case_names idle resolve_failed resolved vertex_exists claimed load_failed
    loaded wait_done no_job linked reported]:
  fixes E r i c
  defines "t \<equiv> pool c ! i"
  obtains
    (idle) "step E r i c = c"
  | (resolve_failed) n tf inc0 err where "i < length (pool c)" "now t = Resolving n tf inc0"
      "resolve E r n tf inc0 = Inl err"
      "step E r i c = c\<lparr>pool := (pool c)[i := t\<lparr>now := Returned err\<rparr>]\<rparr>"
  | (resolved) n tf inc0 child inc2 where "i < length (pool c)" "now t = Resolving n tf inc0"
      "resolve E r n tf inc0 = Inr (child, inc2)"
      "step E r i c = c\<lparr>pool := (pool c)[i := t\<lparr>job := Some (Location n, Location child, inc2),
                                                  now := Claiming child\<rparr>]\<rparr>"
  | (vertex_exists) n where "i < length (pool c)" "now t = Claiming n"
      "Location n \<in> set (map fst (vertices (graph c)))"
      "step E r i c = c\<lparr>pool := (pool c)[i := t\<lparr>now := after_include t None\<rparr>]\<rparr>"
  | (claimed) n g1 where "i < length (pool c)" "now t = Claiming n"
      "AddVertex (Location n) (graph c) = Inr g1"
      "step E r i c = c\<lparr>graph := g1, pool := (pool c)[i := t\<lparr>now := Loading n\<rparr>]\<rparr>"
  | (load_failed) n e w1 where "i < length (pool c)" "now t = Loading n"
      "readNode E r n (io c) = (Inl e, w1)"
      "step E r i c = c\<lparr>io := w1, pool := (pool c)[i := t\<lparr>now := Returned (Some e)\<rparr>]\<rparr>"
  | (loaded) n tf node1 w1 where "i < length (pool c)" "now t = Loading n"
      "readNode E r n (io c) = (Inr (tf, node1), w1)"
      "step E r i c = c\<lparr>graph := set_Taskfile (Location n) tf (graph c), io := w1,
                          pool := (pool c)[i := t\<lparr>now := Waiting None\<rparr>] @ spawn i node1 tf\<rparr>"
  | (wait_done) slot where "i < length (pool c)" "now t = Waiting slot"
      "children_done i (pool c)"
      "step E r i c = c\<lparr>pool := (pool c)[i := t\<lparr>now := after_include t slot\<rparr>]\<rparr>"
  | (no_job) "i < length (pool c)" "now t = Linking" "job t = None"
      "step E r i c = c\<lparr>pool := (pool c)[i := t\<lparr>now := Returned None\<rparr>]\<rparr>"
  | (linked) src dst inc2 err g1 where "i < length (pool c)" "now t = Linking"
      "job t = Some (src, dst, inc2)" "link (graph c) src dst inc2 = (err, g1)"
      "step E r i c = c\<lparr>graph := g1, pool := (pool c)[i := t\<lparr>now := Returned err\<rparr>]\<rparr>"
  | (reported) err where "i < length (pool c)" "now t = Returned err"
      "step E r i c = c\<lparr>pool := (report (parent t) err (pool c))[i := t\<lparr>now := Finished err\<rparr>]\<rparr>"
proof (cases "i < length (pool c)")
  case False
  then have "step E r i c = c" by (simp add: step_def)
  then show ?thesis by (rule idle)
next
  case True
  note len = True
  show ?thesis
  proof (cases "now t")
    case (Resolving n tf inc0)
    show ?thesis
    proof (cases "resolve E r n tf inc0")
      case (Inl err)
      with True Resolving show ?thesis
        by (intro resolve_failed [of n tf inc0 err]) (simp_all add: step_def t_def Let_def)
    next
      case (Inr p)
      obtain child inc2 where "p = (child, inc2)" by (cases p)
      with True Resolving Inr show ?thesis
        by (intro resolved [of n tf inc0 child inc2]) (simp_all add: step_def t_def Let_def)
    qed
  next
    case (Claiming n)
    show ?thesis
    proof (cases "AddVertex (Location n) (graph c)")
      case (Inl e)
      with True Claiming AddVertex_Inl [OF Inl] show ?thesis
        by (intro vertex_exists [of n]) (simp_all add: step_def t_def Let_def)
    next
      case (Inr g1)
      with True Claiming show ?thesis
        by (intro claimed [of n g1]) (simp_all add: step_def t_def Let_def)
    qed
  next
    case (Loading n)
    obtain res w1 where rn: "readNode E r n (io c) = (res, w1)" by (cases "readNode E r n (io c)")
    show ?thesis
    proof (cases res)
      case (Inl e)
      with True Loading rn show ?thesis
        by (intro load_failed [of n e w1]) (simp_all add: step_def t_def Let_def after_include_def)
    next
      case (Inr p)
      obtain tf node1 where "p = (tf, node1)" by (cases p)
      with True Loading rn Inr show ?thesis
        by (intro loaded [of n tf node1 w1]) (simp_all add: step_def t_def Let_def)
    qed
  next
    case (Waiting slot)
    show ?thesis
    proof (cases "children_done i (pool c)")
      case False
      with len Waiting have "step E r i c = c" by (simp add: step_def t_def Let_def)
      then show ?thesis by (rule idle)
    next
      case True
      with len Waiting show ?thesis
        by (intro wait_done [of slot]) (simp_all add: step_def t_def Let_def)
    qed
  next
    case Linking
    show ?thesis
    proof (cases "job t")
      case None
      with True Linking show ?thesis
        by (intro no_job) (simp_all add: step_def t_def Let_def)
    next
      case (Some j)
      obtain src dst inc2 where j: "j = (src, dst, inc2)" by (cases j)
      obtain err g1 where "link (graph c) src dst inc2 = (err, g1)"
        by (cases "link (graph c) src dst inc2")
      with True Linking Some j show ?thesis
        by (intro linked [of src dst inc2 err g1]) (simp_all add: step_def t_def Let_def)
    qed
  next
    case (Returned err)
    with True show ?thesis
      by (intro reported [of err]) (simp_all add: step_def t_def Let_def)
  next
    case (Finished err)
    with True have "step E r i c = c" by (simp add: step_def t_def Let_def)
    then show ?thesis by (rule idle)
  qed
qed

text \<open>What the recording of a result changes in the pool.\<close>

lemma report_length [simp]: "length (report par err ps) = length ps"
  by (simp add: report_def split: option.splits)

lemma report_parent [simp]: "j < length ps \<Longrightarrow> parent (report par err ps ! j) = parent (ps ! j)"
  by (simp add: report_def record_error_def nth_list_update split: option.splits stage.splits)

lemma report_job [simp]: "j < length ps \<Longrightarrow> job (report par err ps ! j) = job (ps ! j)"
  by (simp add: report_def record_error_def nth_list_update split: option.splits stage.splits)

lemma report_other: "j < length ps \<Longrightarrow> par \<noteq> Some j \<Longrightarrow> report par err ps ! j = ps ! j"
  by (auto simp add: report_def nth_list_update split: option.splits)

lemma report_not_Waiting:
  "j < length ps \<Longrightarrow> \<not> is_Waiting (now (ps ! j)) \<Longrightarrow> report par err ps ! j = ps ! j"
  by (auto simp add: report_def record_error_def nth_list_update split: option.splits stage.splits)

lemma report_Waiting:
  "j < length ps \<Longrightarrow> now (ps ! j) = Waiting slot \<Longrightarrow>
   now (report par err ps ! j) = Waiting (if par = Some j then first_error slot err else slot)"
  by (auto simp add: report_def record_error_def nth_list_update split: option.splits)

lemma report_is_Waiting [simp]:
  "j < length ps \<Longrightarrow> is_Waiting (now (report par err ps ! j)) = is_Waiting (now (ps ! j))"
  by (cases "now (ps ! j)") (simp_all add: report_Waiting report_not_Waiting)

lemma report_is_Finished [simp]:
  "j < length ps \<Longrightarrow> is_Finished (now (report par err ps ! j)) = is_Finished (now (ps ! j))"
  by (cases "now (ps ! j)") (simp_all add: report_Waiting report_not_Waiting)

lemma first_error_Some: "first_error (Some e) x = Some e"
  by simp

lemma first_error_failed: "\<exists>e'. first_error slot (Some e) = Some e'"
  by (cases slot) simp_all

lemma report_failed:
  "j < length ps \<Longrightarrow> failed (now (ps ! j)) \<Longrightarrow> failed (now (report par err ps ! j))"
  by (cases "now (ps ! j)") (auto simp add: report_Waiting report_not_Waiting elim: failed.elims)

lemma record_error_loading_of [simp]: "loading_of (now (record_error err p)) = loading_of (now p)"
  by (simp add: record_error_def split: stage.splits)

lemma loading_update_same:
  assumes "p < length ps" and "loading_of (now q) = loading_of (now (ps ! p))"
  shows "loading (ps[p := q]) = loading ps"
proof -
  have "map (\<lambda>t. loading_of (now t)) (ps[p := q]) = (map (\<lambda>t. loading_of (now t)) ps)[p := loading_of (now (ps ! p))]"
    by (simp add: map_update assms(2))
  also have "\<dots> = map (\<lambda>t. loading_of (now t)) ps"
    using assms(1) by (simp add: list_update_same_conv)
  finally show ?thesis by (simp add: loading_def)
qed

lemma report_loading [simp]: "loading (report par err ps) = loading ps"
  by (simp add: report_def loading_update_same split: option.splits)

section \<open>Invariants of every schedule\<close>

lemma exec_invariant:
  assumes "P c" and "\<And>i c. P c \<Longrightarrow> P (step E r i c)"
  shows "P (exec E r sched c)"
  using assms(1) unfolding exec_def
  by (induction sched arbitrary: c) (simp_all add: assms(2))

lemma exec_append: "exec E r (s1 @ s2) c = exec E r s2 (exec E r s1 c)"
  by (simp add: exec_def)

text \<open>The graph is acyclic.\<close>

lemma step_acyclic:
  assumes "acyclic (edge_pairs (edges (graph c)))"
  shows "acyclic (edge_pairs (edges (graph (step E r i c))))"
proof (cases rule: step_cases [of E r i c])
  case (claimed n g1)
  with assms AddVertex_edges [OF claimed(3)] show ?thesis by simp
next
  case (loaded n tf node1 w1)
  with assms show ?thesis by (simp add: set_Taskfile_def)
next
  case (linked src dst inc2 err g1)
  with link_acyclic [OF assms linked(4)] show ?thesis by simp
qed (use assms in simp_all)

lemma start_acyclic: "acyclic (edge_pairs (edges (graph (start n w))))"
  by (simp add: start_def NewTaskfileGraph_def acyclic_no_edges)

lemma exec_acyclic: "acyclic (edge_pairs (edges (graph (exec E r sched (start n w)))))"
  by (rule exec_invariant [where P = "\<lambda>c. acyclic (edge_pairs (edges (graph c)))"])
     (simp_all add: start_acyclic step_acyclic)

text \<open>A goroutine that has failed stays so.\<close>

lemma after_include_failed: "failed (after_include t (Some e))"
  by (simp add: after_include_def)

lemma step_length: "length (pool c) \<le> length (pool (step E r i c))"
  by (cases rule: step_cases [of E r i c]) simp_all

lemma step_failed:
  assumes "j < length (pool c)" and "failed (now (pool c ! j))"
  shows "failed (now (pool (step E r i c) ! j))"
proof (cases rule: step_cases [of E r i c])
  case idle
  with assms show ?thesis by simp
next
  case (wait_done slot)
  with assms show ?thesis
    by (cases slot) (auto simp add: nth_list_update after_include_def)
next
  case (reported err)
  with assms report_failed [OF assms, of "parent (pool c ! i)" err] show ?thesis
    by (cases err) (auto simp add: nth_list_update)
next
  case (loaded n tf node1 w1)
  with assms show ?thesis by (auto simp add: nth_append nth_list_update)
qed (use assms in \<open>auto simp add: nth_list_update\<close>)

text \<open>The pool keeps its shape.\<close>

lemma children_doneD:
  "children_done i ps \<Longrightarrow> j < length ps \<Longrightarrow> parent (ps ! j) = Some i \<Longrightarrow> is_Finished (now (ps ! j))"
  by (simp add: children_done_def list_all_length)

lemma well_formedD:
  assumes "well_formed c" and "j < length (pool c)" and "parent (pool c ! j) = Some p"
  shows "p < j" and "is_Finished (now (pool c ! j)) \<or> is_Waiting (now (pool c ! p))"
  using assms by (auto simp add: well_formed_def split: option.splits)

lemma well_formed_root:
  assumes "well_formed c" and "j < length (pool c)" and "parent (pool c ! j) = None"
  shows "j = 0"
  using assms by (auto simp add: well_formed_def split: option.splits)

text \<open>A step that moves goroutine \<open>i\<close> only, to a stage where it does not wait.\<close>

lemma well_formed_move:
  assumes wf: "well_formed c" and i: "i < length (pool c)"
    and t: "parent t = parent (pool c ! i)"
    and active: "\<not> is_Finished (now (pool c ! i))"
    and kids: "is_Waiting (now (pool c ! i)) \<Longrightarrow> children_done i (pool c)"
    and pool: "pool c' = (pool c)[i := t]"
  shows "well_formed c'"
  unfolding well_formed_def
proof (intro conjI allI impI)
  from wf pool show "pool c' \<noteq> []" by (simp add: well_formed_def)
next
  fix j assume j: "j < length (pool c')"
  then have j': "j < length (pool c)" by (simp add: pool)
  have par: "parent (pool c' ! j) = parent (pool c ! j)"
    using j' t i by (auto simp add: pool nth_list_update)
  show "case parent (pool c' ! j) of None \<Rightarrow> j = 0
        | Some p \<Rightarrow> p < j \<and> (is_Finished (now (pool c' ! j)) \<or> is_Waiting (now (pool c' ! p)))"
  proof (cases "parent (pool c ! j)")
    case None
    with well_formed_root [OF wf j' None] par show ?thesis by simp
  next
    case (Some p)
    note w = well_formedD [OF wf j' Some]
    have "is_Finished (now (pool c' ! j)) \<or> is_Waiting (now (pool c' ! p))"
    proof (cases "p = i")
      case True
      show ?thesis
      proof (cases "is_Waiting (now (pool c ! i))")
        case True
        from children_doneD [OF kids [OF True] j'] Some \<open>p = i\<close> w(1)
        show ?thesis by (simp add: pool nth_list_update i)
      next
        case False
        with w(2) \<open>p = i\<close> w(1) show ?thesis by (simp add: pool nth_list_update i)
      qed
    next
      case False
      show ?thesis
      proof (cases "j = i")
        case True
        with w(2) active have "is_Waiting (now (pool c ! p))" by simp
        with False w(1) j' show ?thesis by (simp add: pool nth_list_update i)
      next
        case False
        with w(2) \<open>p \<noteq> i\<close> show ?thesis by (simp add: pool nth_list_update i)
      qed
    qed
    with w(1) par Some show ?thesis by simp
  qed
qed


lemma well_formed_pool:
  assumes "well_formed c" and "length (pool c') = length (pool c)"
    and "\<And>j. j < length (pool c) \<Longrightarrow> parent (pool c' ! j) = parent (pool c ! j)
            \<and> is_Finished (now (pool c' ! j)) = is_Finished (now (pool c ! j))
            \<and> is_Waiting (now (pool c' ! j)) = is_Waiting (now (pool c ! j))"
  shows "well_formed c'"
  unfolding well_formed_def
proof (intro conjI allI impI)
  from assms(1,2) show "pool c' \<noteq> []" by (auto simp add: well_formed_def)
next
  fix j assume "j < length (pool c')"
  then have j: "j < length (pool c)" by (simp add: assms(2))
  show "case parent (pool c' ! j) of None \<Rightarrow> j = 0
        | Some p \<Rightarrow> p < j \<and> (is_Finished (now (pool c' ! j)) \<or> is_Waiting (now (pool c' ! p)))"
  proof (cases "parent (pool c ! j)")
    case None
    with well_formed_root [OF assms(1) j None] assms(3) [OF j] show ?thesis by simp
  next
    case (Some p)
    note w = well_formedD [OF assms(1) j Some]
    from w(1) j have "p < length (pool c)" by simp
    from assms(3) [OF this] assms(3) [OF j] w Some show ?thesis by simp
  qed
qed

lemma spawn_nth:
  "k < length (spawn i node1 tf) \<Longrightarrow>
   parent (spawn i node1 tf ! k) = Some i \<and> \<not> is_Finished (now (spawn i node1 tf ! k))
   \<and> loading_of (now (spawn i node1 tf ! k)) = [] \<and> \<not> failed (now (spawn i node1 tf ! k))"
  by (simp add: spawn_def)

lemma well_formed_spawn:
  assumes wf: "well_formed c" and i: "i < length (pool c)"
    and active: "\<not> is_Finished (now (pool c ! i))"
    and pool: "pool c' = (pool c)[i := (pool c ! i)\<lparr>now := Waiting None\<rparr>] @ spawn i node1 tf"
  shows "well_formed c'"
  unfolding well_formed_def
proof (intro conjI allI impI)
  from wf pool show "pool c' \<noteq> []" by (simp add: well_formed_def)
next
  fix j assume j: "j < length (pool c')"
  show "case parent (pool c' ! j) of None \<Rightarrow> j = 0
        | Some p \<Rightarrow> p < j \<and> (is_Finished (now (pool c' ! j)) \<or> is_Waiting (now (pool c' ! p)))"
  proof (cases "j < length (pool c)")
    case False
    then have "pool c' ! j = spawn i node1 tf ! (j - length (pool c))"
      by (simp add: pool nth_append)
    moreover from j False have "j - length (pool c) < length (spawn i node1 tf)"
      by (simp add: pool)
    ultimately have "parent (pool c' ! j) = Some i" by (simp add: spawn_nth)
    moreover from i have "is_Waiting (now (pool c' ! i))" by (simp add: pool nth_append)
    moreover from i False have "i < j" by simp
    ultimately show ?thesis by simp
  next
    case True
    then have par: "parent (pool c' ! j) = parent (pool c ! j)"
      using i by (auto simp add: pool nth_append nth_list_update)
    show ?thesis
    proof (cases "parent (pool c ! j)")
      case None
      with well_formed_root [OF wf True None] par show ?thesis by simp
    next
      case (Some p)
      note w = well_formedD [OF wf True Some]
      from w(1) True have p: "p < length (pool c)" by simp
      have "is_Finished (now (pool c' ! j)) \<or> is_Waiting (now (pool c' ! p))"
      proof (cases "p = i")
        case True
        with p show ?thesis by (simp add: pool nth_append)
      next
        case False
        with w p True i active show ?thesis by (auto simp add: pool nth_append nth_list_update)
      qed
      with w(1) par Some show ?thesis by simp
    qed
  qed
qed

lemma step_well_formed:
  assumes wf: "well_formed c"
  shows "well_formed (step E r i c)"
proof (cases rule: step_cases [of E r i c])
  case idle
  with wf show ?thesis by simp
next
  case (loaded n tf node1 w1)
  show ?thesis
    by (rule well_formed_spawn [OF wf loaded(1), of _ node1 tf]) (simp_all add: loaded)
next
  case (reported err)
  let ?c1 = "c\<lparr>pool := report (parent (pool c ! i)) err (pool c)\<rparr>"
  have wf1: "well_formed ?c1"
    by (rule well_formed_pool [OF wf]) simp_all
  have same: "report (parent (pool c ! i)) err (pool c) ! i = pool c ! i"
    using reported(1,2) by (simp add: report_not_Waiting)
  show ?thesis
    by (rule well_formed_move [OF wf1, of i "(pool c ! i)\<lparr>now := Finished err\<rparr>"])
       (use reported same in simp_all)
next
  case (wait_done slot)
  show ?thesis
    by (rule well_formed_move [OF wf wait_done(1), of "(pool c ! i)\<lparr>now := after_include (pool c ! i) slot\<rparr>"])
       (use wait_done in simp_all)
qed (rule well_formed_move [OF wf, of i], simp_all)+

lemma start_well_formed: "well_formed (start n w)"
  by (simp add: well_formed_def start_def)

lemma exec_well_formed: "well_formed (exec E r sched (start n w))"
  by (rule exec_invariant [where P = well_formed]) (simp_all add: start_well_formed step_well_formed)

text \<open>Errors reach the parent.\<close>

lemma errors_reportedD:
  assumes "errors_reported c" and "j < length (pool c)"
    and "now (pool c ! j) = Finished (Some e)" and "parent (pool c ! j) = Some p"
  shows "failed (now (pool c ! p))"
  using assms unfolding errors_reported_def by blast

lemma step_nth_Finished:
  assumes "j < length (pool c)" and "now (pool c ! j) = Finished err"
  shows "pool (step E r i c) ! j = pool c ! j"
proof (cases rule: step_cases [of E r i c])
  case (reported err')
  have "report (parent (pool c ! i)) err' (pool c) ! j = pool c ! j"
    using assms by (simp add: report_not_Waiting)
  with reported assms show ?thesis by (auto simp add: nth_list_update)
next
  case (loaded n tf node1 w1)
  with assms show ?thesis by (auto simp add: nth_append nth_list_update)
qed (use assms in \<open>auto simp add: nth_list_update\<close>)

lemma step_parent:
  assumes "j < length (pool c)"
  shows "parent (pool (step E r i c) ! j) = parent (pool c ! j)"
proof (cases rule: step_cases [of E r i c])
  case (loaded n tf node1 w1)
  with assms show ?thesis by (auto simp add: nth_append nth_list_update)
qed (use assms in \<open>auto simp add: nth_list_update\<close>)

text \<open>A goroutine that becomes done was in \<open>Returned\<close>, and the step is its own.\<close>

lemma step_becomes_Finished:
  assumes "j < length (pool (step E r i c))" 
    and "now (pool (step E r i c) ! j) = Finished err"
    and "\<not> (j < length (pool c) \<and> now (pool c ! j) = Finished err)"
  shows "j = i \<and> i < length (pool c) \<and> now (pool c ! i) = Returned err
       \<and> pool (step E r i c) =
           (report (parent (pool c ! i)) err (pool c))[i := (pool c ! i)\<lparr>now := Finished err\<rparr>]"
proof (cases rule: step_cases [of E r i c])
  case idle
  with assms show ?thesis by simp
next
  case (reported err')
  have "report (parent (pool c ! i)) err' (pool c) ! j = pool c ! j" if "j \<noteq> i"
  proof (cases "is_Waiting (now (pool c ! j))")
    case True
    with assms(1) reported have "is_Waiting (now (report (parent (pool c ! i)) err' (pool c) ! j))"
      by simp
    with assms(1,2) reported that show ?thesis by (auto simp add: nth_list_update)
  next
    case False
    with assms(1) reported show ?thesis by (simp add: report_not_Waiting)
  qed
  with assms reported show ?thesis by (auto simp add: nth_list_update split: if_splits)
next
  case (loaded n tf node1 w1)
  have "\<not> is_Finished (now (spawn i node1 tf ! (j - length (pool c))))"
    if "\<not> j < length (pool c)" "j < length (pool c) + length (spawn i node1 tf)"
    using that by (intro spawn_nth [THEN conjunct2, THEN conjunct1]) arith
  with loaded assms show ?thesis
    by (auto simp add: nth_append nth_list_update split: if_splits)
next
  case (wait_done slot)
  with assms show ?thesis
    by (auto simp add: nth_list_update after_include_def split: if_splits option.splits)
next
  case (vertex_exists n)
  with assms show ?thesis
    by (auto simp add: nth_list_update after_include_def split: if_splits option.splits)
qed (use assms in \<open>auto simp add: nth_list_update split: if_splits\<close>)

lemma step_errors_reported:
  assumes wf: "well_formed c" and er: "errors_reported c"
  shows "errors_reported (step E r i c)"
  unfolding errors_reported_def
proof (intro allI impI, elim conjE)
  fix j e p
  assume j: "j < length (pool (step E r i c))"
    and fin: "now (pool (step E r i c) ! j) = Finished (Some e)"
    and par: "parent (pool (step E r i c) ! j) = Some p"
  show "failed (now (pool (step E r i c) ! p))"
  proof (cases "j < length (pool c) \<and> now (pool c ! j) = Finished (Some e)")
    case True
    with par have par': "parent (pool c ! j) = Some p" by (simp add: step_parent)
    from errors_reportedD [OF er _ _ par'] True have "failed (now (pool c ! p))" by simp
    moreover from well_formedD(1) [OF wf _ par'] True have "p < length (pool c)" by simp
    ultimately show ?thesis by (simp add: step_failed)
  next
    case False
    note b = step_becomes_Finished [OF j fin False]
    then have ji: "j = i" and i: "i < length (pool c)" and ret: "now (pool c ! i) = Returned (Some e)"
      by simp_all
    from par ji i have par': "parent (pool c ! i) = Some p" by (simp add: step_parent)
    from well_formedD [OF wf i par'] ret have p: "p < i" and w: "is_Waiting (now (pool c ! p))"
      by simp_all
    then obtain slot where slot: "now (pool c ! p) = Waiting slot"
      by (cases "now (pool c ! p)") simp_all
    from p i have pl: "p < length (pool c)" by simp
    have "now (report (Some p) (Some e) (pool c) ! p) = Waiting (first_error slot (Some e))"
      using report_Waiting [OF pl slot, of "Some p" "Some e"] by simp
    moreover obtain e' where "first_error slot (Some e) = Some e'"
      using first_error_failed by blast
    ultimately have "failed (now (report (Some p) (Some e) (pool c) ! p))" by simp
    with b par' p pl show ?thesis by (simp add: nth_list_update)
  qed
qed

lemma start_errors_reported: "errors_reported (start n w)"
  by (simp add: errors_reported_def start_def)

lemma exec_errors_reported: "errors_reported (exec E r sched (start n w))"
proof -
  have "well_formed (exec E r sched (start n w)) \<and> errors_reported (exec E r sched (start n w))"
    by (rule exec_invariant [where P = "\<lambda>c. well_formed c \<and> errors_reported c"])
       (simp_all add: start_well_formed start_errors_reported step_well_formed step_errors_reported)
  then show ?thesis by simp
qed

text \<open>When the caller of \<^verbatim>\<open>Read\<close> is done, every goroutine is, and none with an error if it has none.\<close>

lemma all_Finished:
  assumes wf: "well_formed c" and root: "is_Finished (now (pool c ! 0))"
  shows "j < length (pool c) \<Longrightarrow> is_Finished (now (pool c ! j))"
proof (induction j rule: less_induct)
  case (less j)
  show ?case
  proof (cases "parent (pool c ! j)")
    case None
    with well_formed_root [OF wf less.prems None] root show ?thesis by simp
  next
    case (Some p)
    note w = well_formedD [OF wf less.prems Some]
    from w(1) less.prems have "p < length (pool c)" by simp
    from less.IH [OF w(1) this] have "is_Finished (now (pool c ! p))" .
    then have "\<not> is_Waiting (now (pool c ! p))" by (cases "now (pool c ! p)") simp_all
    with w(2) show ?thesis by simp
  qed
qed

lemma none_failed:
  assumes wf: "well_formed c" and er: "errors_reported c"
    and root: "now (pool c ! 0) = Finished None"
  shows "j < length (pool c) \<Longrightarrow> now (pool c ! j) = Finished None"
proof (induction j rule: less_induct)
  case (less j)
  from root have "is_Finished (now (pool c ! 0))" by simp
  from all_Finished [OF wf this less.prems] obtain err where fin: "now (pool c ! j) = Finished err"
    by (cases "now (pool c ! j)") simp_all
  show ?case
  proof (cases err)
    case None
    with fin show ?thesis by simp
  next
    case (Some e)
    show ?thesis
    proof (cases "parent (pool c ! j)")
      case None
      with well_formed_root [OF wf less.prems None] root fin Some show ?thesis by simp
    next
      case par: (Some p)
      note w = well_formedD [OF wf less.prems par]
      from w(1) less.prems have "p < length (pool c)" by simp
      from less.IH [OF w(1) this] have "now (pool c ! p) = Finished None" .
      moreover from errors_reportedD [OF er less.prems _ par] fin Some
      have "failed (now (pool c ! p))" by simp
      ultimately show ?thesis by simp
    qed
  qed
qed

lemma Read_Inr: "Read c = Some (Inr g) \<longleftrightarrow> pool c \<noteq> [] \<and> now (pool c ! 0) = Finished None \<and> g = graph c"
  by (auto simp add: Read_def nth_Cons split: list.splits stage.splits option.splits)

lemma Read_Some: "Read c = Some res \<Longrightarrow> pool c \<noteq> [] \<and> is_Finished (now (pool c ! 0))"
  by (auto simp add: Read_def split: list.splits stage.splits option.splits)

lemma exec_failed:
  assumes "j < length (pool c)" and "failed (now (pool c ! j))"
  shows "j < length (pool (exec E r sched c)) \<and> failed (now (pool (exec E r sched c) ! j))"
proof (rule exec_invariant [where P = "\<lambda>c. j < length (pool c) \<and> failed (now (pool c ! j))"])
  show "j < length (pool c) \<and> failed (now (pool c ! j))" using assms by simp
  show "j < length (pool (step E r i c)) \<and> failed (now (pool (step E r i c) ! j))"
    if "j < length (pool c) \<and> failed (now (pool c ! j))" for i c
    using that step_failed [of j c E r i] step_length [of c E r i] by simp
qed

text \<open>Once a goroutine has failed, \<^verbatim>\<open>Read\<close> does not hand back a graph.\<close>

lemma failed_run_fails:
  assumes c: "c = exec E r sched (start n w)"
    and j: "j < length (pool c)" and f: "failed (now (pool c ! j))"
    and res: "Read (exec E r sched' c) = Some res"
  shows "\<exists>e. res = Inl e"
proof (cases res)
  case (Inl e)
  then show ?thesis by simp
next
  case (Inr g)
  let ?c' = "exec E r sched' c"
  have c': "?c' = exec E r (sched @ sched') (start n w)" by (simp add: c exec_append)
  have wf: "well_formed ?c'" and er: "errors_reported ?c'"
    unfolding c' by (rule exec_well_formed, rule exec_errors_reported)
  from res Inr have "now (pool ?c' ! 0) = Finished None" by (simp add: Read_Inr)
  from none_failed [OF wf er this] exec_failed [OF j f, of E r sched']
  show ?thesis by auto
qed

text \<open>Every vertex is read once.\<close>

lemma loading_update:
  assumes "i < length ps"
  shows "mset (loading (ps[i := t])) + mset (loading_of (now (ps ! i))) =
         mset (loading ps) + mset (loading_of (now t))"
  using assms
proof (induction ps arbitrary: i)
  case Nil
  then show ?case by simp
next
  case (Cons p ps)
  show ?case
  proof (cases i)
    case 0
    then show ?thesis by (simp add: loading_def)
  next
    case (Suc k)
    with Cons.prems have "k < length ps" by simp
    from Cons.IH [OF this] Suc show ?thesis by (simp add: loading_def)
  qed
qed

lemma loading_spawn [simp]: "loading (ps @ spawn i node1 tf) = loading ps"
proof -
  have "concat (map (\<lambda>t. loading_of (now t)) (spawn i node1 tf)) = []"
    by (simp add: spawn_def comp_def)
  then show ?thesis by (simp add: loading_def)
qed

lemma loading_quiet:
  assumes "i < length ps" and "loading_of (now (ps ! i)) = []" and "loading_of (now t) = []"
  shows "mset (loading (ps[i := t])) = mset (loading ps)"
  using loading_update [OF assms(1), of t] assms(2,3) by simp

lemma after_include_loading [simp]: "loading_of (after_include t err) = []"
  by (simp add: after_include_def split: option.splits)

lemma subseteq_add_mset: "A \<subseteq># B \<Longrightarrow> A \<subseteq># add_mset x B"
  by (metis add_mset_add_single mset_subset_eq_add_left subset_mset.order_trans)

lemma step_reads_once:
  assumes inv: "reads_once c"
  shows "reads_once (step E r i c)"
proof (cases rule: step_cases [of E r i c])
  case idle
  with inv show ?thesis by simp
next
  case (claimed n g1)
  note a = AddVertex_Inr [OF claimed(3)]
  from loading_update [OF claimed(1), of "(pool c ! i)\<lparr>now := Loading n\<rparr>"] claimed(2)
  have "mset (loading ((pool c)[i := (pool c ! i)\<lparr>now := Loading n\<rparr>])) =
          mset (loading (pool c)) + {#Location n#}"
    by simp
  with inv a claimed(4) show ?thesis by (auto simp add: reads_once_def)
next
  case (load_failed n e w1)
  note ev = readNode_events [OF load_failed(3)]
  from loading_update [OF load_failed(1), of "(pool c ! i)\<lparr>now := Returned (Some e)\<rparr>"]
    load_failed(2)
  have l: "mset (loading ((pool c)[i := (pool c ! i)\<lparr>now := Returned (Some e)\<rparr>])) + {#Location n#} =
          mset (loading (pool c))"
    by simp
  have "mset (unmarshal_locations (events w1)) \<subseteq># mset (read_locations (events (io c))) + {#Location n#}"
    using inv ev by (auto simp add: reads_once_def intro: subseteq_add_mset)
  with inv ev l [symmetric] load_failed(4) show ?thesis
    by (simp add: reads_once_def)
next
  case (loaded n tf node1 w1)
  note ev = readNode_events [OF loaded(3)]
  from loading_update [OF loaded(1), of "(pool c ! i)\<lparr>now := Waiting None\<rparr>"] loaded(2)
  have l: "mset (loading ((pool c)[i := (pool c ! i)\<lparr>now := Waiting None\<rparr>])) + {#Location n#} =
          mset (loading (pool c))"
    by simp
  have "mset (unmarshal_locations (events w1)) \<subseteq># mset (read_locations (events (io c))) + {#Location n#}"
    using inv ev by (auto simp add: reads_once_def intro: subseteq_add_mset)
  with inv ev l [symmetric] loaded(4) show ?thesis
    by (simp add: reads_once_def set_Taskfile_keys [simplified])
next
  case (linked src dst inc2 err g1)
  from loading_quiet [OF linked(1), of "(pool c ! i)\<lparr>now := Returned err\<rparr>"] linked(2)
  have "mset (loading ((pool c)[i := (pool c ! i)\<lparr>now := Returned err\<rparr>])) = mset (loading (pool c))"
    by simp
  with inv link_vertices [OF linked(4)] linked(5) show ?thesis by (simp add: reads_once_def)
next
  case (reported err)
  have "i < length (report (parent (pool c ! i)) err (pool c))" using reported(1) by simp
  from loading_quiet [OF this, of "(pool c ! i)\<lparr>now := Finished err\<rparr>"] reported(1,2)
  have "mset (loading ((report (parent (pool c ! i)) err (pool c))[i := (pool c ! i)\<lparr>now := Finished err\<rparr>]))
        = mset (loading (pool c))"
    by (simp add: report_not_Waiting)
  with inv reported(3) show ?thesis by (simp add: reads_once_def)
next
  case (resolve_failed n tf inc0 err)
  from loading_quiet [OF resolve_failed(1), of "(pool c ! i)\<lparr>now := Returned err\<rparr>"] resolve_failed(2)
  have "mset (loading ((pool c)[i := (pool c ! i)\<lparr>now := Returned err\<rparr>])) = mset (loading (pool c))"
    by simp
  with inv resolve_failed(4) show ?thesis by (simp add: reads_once_def)
next
  case (resolved n tf inc0 child inc2)
  from loading_quiet [OF resolved(1),
      of "(pool c ! i)\<lparr>job := Some (Location n, Location child, inc2), now := Claiming child\<rparr>"]
    resolved(2)
  have "mset (loading ((pool c)[i := (pool c ! i)\<lparr>job := Some (Location n, Location child, inc2),
                                                   now := Claiming child\<rparr>])) = mset (loading (pool c))"
    by simp
  with inv resolved(4) show ?thesis by (simp add: reads_once_def)
next
  case (vertex_exists n)
  from loading_quiet [OF vertex_exists(1), of "(pool c ! i)\<lparr>now := after_include (pool c ! i) None\<rparr>"]
    vertex_exists(2)
  have "mset (loading ((pool c)[i := (pool c ! i)\<lparr>now := after_include (pool c ! i) None\<rparr>])) =
        mset (loading (pool c))"
    by simp
  with inv vertex_exists(4) show ?thesis by (simp add: reads_once_def)
next
  case (wait_done slot)
  from loading_quiet [OF wait_done(1), of "(pool c ! i)\<lparr>now := after_include (pool c ! i) slot\<rparr>"]
    wait_done(2)
  have "mset (loading ((pool c)[i := (pool c ! i)\<lparr>now := after_include (pool c ! i) slot\<rparr>])) =
        mset (loading (pool c))"
    by simp
  with inv wait_done(4) show ?thesis by (simp add: reads_once_def)
next
  case no_job
  from loading_quiet [OF no_job(1), of "(pool c ! i)\<lparr>now := Returned None\<rparr>"] no_job(2)
  have "mset (loading ((pool c)[i := (pool c ! i)\<lparr>now := Returned None\<rparr>])) = mset (loading (pool c))"
    by simp
  with inv no_job(4) show ?thesis by (simp add: reads_once_def)
qed

lemma start_reads_once:
  "read_locations (events w) = [] \<Longrightarrow> unmarshal_locations (events w) = [] \<Longrightarrow> reads_once (start n w)"
  by (simp add: reads_once_def start_def NewTaskfileGraph_def loading_def)

lemma exec_reads_once:
  assumes "read_locations (events w) = []" and "unmarshal_locations (events w) = []"
  shows "reads_once (exec E r sched (start n w))"
  by (rule exec_invariant [where P = reads_once]) (simp_all add: start_reads_once assms step_reads_once)

lemma loading_Finished:
  assumes "\<And>j. j < length ps \<Longrightarrow> is_Finished (now (ps ! j))"
  shows "loading ps = []"
proof -
  have "loading_of (now t) = []" if "t \<in> set ps" for t
  proof -
    from that obtain j where "j < length ps" "t = ps ! j" by (auto simp add: in_set_conv_nth)
    with assms [of j] show ?thesis by (cases "now t") simp_all
  qed
  then show ?thesis by (simp add: loading_def)
qed

section \<open>No run gets stuck\<close>

text \<open>
  As long as \<^verbatim>\<open>Read\<close> has not returned, some goroutine can take a step that changes the
  run: the last goroutine of the pool that is not done waits for nobody.
\<close>

lemma step_moves:
  assumes "j < length (pool c)" and "\<not> is_Finished (now (pool c ! j))"
    and "is_Waiting (now (pool c ! j)) \<Longrightarrow> children_done j (pool c)"
  shows "now (pool (step E r j c) ! j) \<noteq> now (pool c ! j)"
  using assms
  by (cases "now (pool c ! j)")
     (auto simp add: step_def Let_def after_include_def nth_append
        split: sum.splits prod.splits option.splits)

lemma last_unfinished_moves:
  assumes wf: "well_formed c" and j: "j < length (pool c)"
    and nf: "\<not> is_Finished (now (pool c ! j))"
    and later: "\<And>k. j < k \<Longrightarrow> k < length (pool c) \<Longrightarrow> is_Finished (now (pool c ! k))"
  shows "step E r j c \<noteq> c"
proof -
  have "children_done j (pool c)"
    unfolding children_done_def list_all_length
  proof (intro allI impI)
    fix k assume k: "k < length (pool c)" and p: "parent (pool c ! k) = Some j"
    from well_formedD [OF wf k p] have "j < k" by simp
    from later [OF this k] show "is_Finished (now (pool c ! k))" .
  qed
  from step_moves [OF j nf this, of E r] show ?thesis by auto
qed

lemma not_stuck:
  assumes wf: "well_formed c" and none: "Read c = None"
  shows "\<exists>j < length (pool c). step E r j c \<noteq> c"
proof -
  let ?S = "{j. j < length (pool c) \<and> \<not> is_Finished (now (pool c ! j))}"
  from wf have ne: "pool c \<noteq> []" by (simp add: well_formed_def)
  with none have "\<not> is_Finished (now (pool c ! 0))"
    by (auto simp add: Read_def nth_Cons split: list.splits stage.splits option.splits)
  with ne have "0 \<in> ?S" by simp
  then have "?S \<noteq> {}" by blast
  moreover have fin: "finite ?S" by simp
  ultimately have m: "Max ?S \<in> ?S" by (rule Max_in [rotated])
  have "is_Finished (now (pool c ! k))" if "Max ?S < k" and "k < length (pool c)" for k
  proof (rule ccontr)
    assume "\<not> is_Finished (now (pool c ! k))"
    with that(2) have "k \<in> ?S" by simp
    from Max_ge [OF fin this] that(1) show False by simp
  qed
  with last_unfinished_moves [OF wf, of "Max ?S" E r] m show ?thesis by blast
qed

lemma exec_not_stuck:
  "Read (exec E r sched (start n w)) = None \<longrightarrow>
   (\<exists>j < length (pool (exec E r sched (start n w))).
      exec E r (sched @ [j]) (start n w) \<noteq> exec E r sched (start n w))"
proof
  assume "Read (exec E r sched (start n w)) = None"
  from not_stuck [OF exec_well_formed this, of E r]
  show "\<exists>j < length (pool (exec E r sched (start n w))).
      exec E r (sched @ [j]) (start n w) \<noteq> exec E r sched (start n w)"
    by (simp add: exec_def)
qed


section \<open>Example runs\<close>

text \<open>
  The facts that evaluate a run: every definition of the model, and the two rules for the
  cycle test.
\<close>

lemmas run_defs =
  exec_def step_def start_def Read_def resolve_def after_include_def spawn_def report_def
  record_error_def children_done_def
  NewTaskfileGraph_def AddVertex_def readNode_def loadNode_def emit_def
  substitute_def Replace_def set_Taskfile_def link_def Edge_def
  AddEdge_def UpdateEdge_def stamp_taskfile_def Let_def no_cycle_fresh_source
  creates_cycle_back_edge edge_pairs_def


text \<open>
  The run on the document that includes \<open>B\<close> twice leaves one edge that carries both
  includes, in the order in which the goroutines reach the critical section.
\<close>

lemma twice_run:
  "Read (exec (demo_env net_ok decline twice_docs) (demo_reader False False)
     (twice_schedule True) (start (LocalNode ''A'') empty_world)) =
   Some (Inr (twice_graph [demo_include ''b1'' ''B'' False, demo_include ''b2'' ''B'' False]))"
  "Read (exec (demo_env net_ok decline twice_docs) (demo_reader False False)
     (twice_schedule False) (start (LocalNode ''A'') empty_world)) =
   Some (Inr (twice_graph [demo_include ''b2'' ''B'' False, demo_include ''b1'' ''B'' False]))"
  by (simp_all add: run_defs demo_defs)

section \<open>Every location is read once\<close>

text \<open>
  The run on the diamond under the schedule \<open>diamond_schedule\<close>, and the moment of that run where the two
  goroutines that include \<open>D\<close> both stand before the claim of the vertex.
\<close>

lemma diamond_run:
  "exec (demo_env net_ok decline diamond_docs) (demo_reader False False) diamond_schedule
     (start (LocalNode ''A'') empty_world) = diamond_config"
  by (simp add: run_defs demo_defs)

lemma diamond_racing_run:
  "exec (demo_env net_ok decline diamond_docs) (demo_reader False False)
     (take 10 diamond_schedule) (start (LocalNode ''A'') empty_world) = diamond_racing False"
  by (simp add: run_defs demo_defs)

text \<open>
  The three steps that decide how often a location is read. A goroutine that finds the
  vertex of its location in the graph returns without reading (line 83); one that does
  not adds the vertex and goes on to read (lines 82, 90); and the read appends the
  location to the log.
\<close>

lemma step_Claiming_known:
  assumes "i < length (pool c)" and "now (pool c ! i) = Claiming m"
    and "Location m \<in> set (map fst (vertices (graph c)))"
  shows "step E r i c = c\<lparr>pool := (pool c)[i := (pool c ! i)\<lparr>now := after_include (pool c ! i) None\<rparr>]\<rparr>"
  using assms by (simp add: step_def AddVertex_def Let_def)

lemma step_Claiming_new:
  assumes "i < length (pool c)" and "now (pool c ! i) = Claiming m"
    and "Location m \<notin> set (map fst (vertices (graph c)))"
  shows "step E r i c =
           c\<lparr>graph := (graph c)\<lparr>vertices := vertices (graph c) @ [(Location m, None)]\<rparr>,
             pool := (pool c)[i := (pool c ! i)\<lparr>now := Loading m\<rparr>]\<rparr>"
  using assms by (simp add: step_def AddVertex_def Let_def)

lemma step_Loading_reads:
  assumes "i < length (pool c)" and "now (pool c ! i) = Loading m"
  shows "read_locations (events (io (step E r i c))) = read_locations (events (io c)) @ [Location m]"
proof -
  obtain res w1 where rn: "readNode E r m (io c) = (res, w1)" by (cases "readNode E r m (io c)")
  from readNode_events [OF rn] assms rn show ?thesis
    by (cases res) (auto simp add: step_def Let_def split: prod.splits)
qed

lemma distinct_subseteq_mset:
  assumes "mset xs \<subseteq># mset ys" and "distinct ys"
  shows "distinct xs"
  unfolding distinct_count_atmost_1
proof (intro allI)
  fix a
  from assms(1) have le: "count (mset xs) a \<le> count (mset ys) a" by (rule mset_subset_eq_count)
  from assms(2) have "count (mset ys) a \<le> 1" by (simp add: distinct_count_atmost_1)
  with le have le1: "count (mset xs) a \<le> 1" by simp
  show "count (mset xs) a = (if a \<in> set xs then 1 else 0)"
  proof (cases "a \<in> set xs")
    case True
    then have "0 < count (mset xs) a" by (simp add: count_greater_zero_iff)
    with le1 have "count (mset xs) a = 1" by arith
    with True show ?thesis by simp
  next
    case False
    then have "count (mset xs) a = 0" by (simp add: count_eq_zero_iff)
    with False show ?thesis by simp
  qed
qed

text \<open>
  C1: each unique location is loaded and parsed once, even when several documents include
  it. Under every schedule of the goroutines, from a log without reads: the vertices of
  the graph are distinct, the reads and the parses of the log are distinct, every read is
  the read of a vertex, and when the call has returned the reads are exactly the
  vertices. The goroutine that finds its location in the graph reads nothing, the one
  that does not claims the vertex, and the read of a claimed location is logged. As long
  as \<^verbatim>\<open>Read\<close> has not returned, some goroutine can take a step that changes the run.
\<close>

theorem include_reads_each_location_once:
  assumes "read_locations (events w) = []" and "unmarshal_locations (events w) = []"
  shows "distinct (map fst (vertices (graph (exec E r sched (start n w)))))
       \<and> distinct (read_locations (events (io (exec E r sched (start n w)))))
       \<and> distinct (unmarshal_locations (events (io (exec E r sched (start n w)))))
       \<and> set (read_locations (events (io (exec E r sched (start n w)))))
           \<subseteq> set (map fst (vertices (graph (exec E r sched (start n w)))))
       \<and> (Read (exec E r sched (start n w)) \<noteq> None \<longrightarrow>
            mset (read_locations (events (io (exec E r sched (start n w))))) =
            mset (map fst (vertices (graph (exec E r sched (start n w))))))
       \<and> (\<forall>i m. i < length (pool c) \<and> now (pool c ! i) = Claiming m
              \<and> Location m \<in> set (map fst (vertices (graph c))) \<longrightarrow>
            step E r i c =
              c\<lparr>pool := (pool c)[i := (pool c ! i)\<lparr>now := after_include (pool c ! i) None\<rparr>]\<rparr>)
       \<and> (\<forall>i m. i < length (pool c) \<and> now (pool c ! i) = Claiming m
              \<and> Location m \<notin> set (map fst (vertices (graph c))) \<longrightarrow>
            step E r i c =
              c\<lparr>graph := (graph c)\<lparr>vertices := vertices (graph c) @ [(Location m, None)]\<rparr>,
                pool := (pool c)[i := (pool c ! i)\<lparr>now := Loading m\<rparr>]\<rparr>)
       \<and> (\<forall>i m. i < length (pool c) \<and> now (pool c ! i) = Loading m \<longrightarrow>
            read_locations (events (io (step E r i c))) =
              read_locations (events (io c)) @ [Location m])
       \<and> (Read (exec E r sched (start n w)) = None \<longrightarrow>
            (\<exists>j < length (pool (exec E r sched (start n w))).
               exec E r (sched @ [j]) (start n w) \<noteq> exec E r sched (start n w)))"
proof -
  let ?c = "exec E r sched (start n w)"
  have inv: "reads_once ?c" by (rule exec_reads_once [OF assms])
  have wf: "well_formed ?c" by (rule exec_well_formed)
  from inv have d: "distinct (map fst (vertices (graph ?c)))" by (simp add: reads_once_def)
  from inv have sub: "mset (read_locations (events (io ?c))) \<subseteq># mset (map fst (vertices (graph ?c)))"
    by (simp add: reads_once_def)
  from inv have um: "mset (unmarshal_locations (events (io ?c))) \<subseteq># mset (read_locations (events (io ?c)))"
    by (simp add: reads_once_def)
  from sub d have dr: "distinct (read_locations (events (io ?c)))"
    by (rule distinct_subseteq_mset)
  from um dr have du: "distinct (unmarshal_locations (events (io ?c)))"
    by (rule distinct_subseteq_mset)
  from sub have ss: "set (read_locations (events (io ?c))) \<subseteq> set (map fst (vertices (graph ?c)))"
    by (metis set_mset_mono set_mset_mset)
  have fin: "mset (read_locations (events (io ?c))) = mset (map fst (vertices (graph ?c)))"
    if "Read ?c \<noteq> None"
  proof -
    from that obtain res where "Read ?c = Some res" by blast
    from Read_Some [OF this] have "is_Finished (now (pool ?c ! 0))" by simp
    from loading_Finished [of "pool ?c", OF all_Finished [OF wf this]] inv
    show ?thesis by (simp add: reads_once_def)
  qed
  from d dr du ss fin step_Claiming_known [of _ c _ E r] step_Claiming_new [of _ c _ E r]
    step_Loading_reads [of _ c _ E r] exec_not_stuck [of E r sched n w]
  show ?thesis by blast
qed


theorem include_reads_each_location_once_witness:
  "exec (demo_env net_ok decline diamond_docs) (demo_reader False False) diamond_schedule
     (start (LocalNode ''A'') empty_world) = diamond_config
   \<and> Read diamond_config = Some (Inr (graph diamond_config))
   \<and> read_locations (events (io diamond_config)) = [''A'', ''B'', ''C'', ''D'']
   \<and> map fst (vertices (graph diamond_config)) = [''A'', ''B'', ''C'', ''D'']
   \<and> exec (demo_env net_ok decline diamond_docs) (demo_reader False False)
       (take 10 diamond_schedule) (start (LocalNode ''A'') empty_world) = diamond_racing False
   \<and> step (demo_env net_ok decline diamond_docs) (demo_reader False False) 3
       (diamond_racing False) = diamond_racing True
   \<and> step (demo_env net_ok decline diamond_docs) (demo_reader False False) 4
       (diamond_racing True) =
       (diamond_racing True)\<lparr>pool := (pool (diamond_racing True))
          [4 := goroutine_at (Some 2) (Some (''C'', ''D'', demo_include ''d'' ''D'' False)) Linking]\<rparr>
   \<and> read_locations (events (io (step (demo_env net_ok decline diamond_docs)
          (demo_reader False False) 3 (diamond_racing True)))) = [''A'', ''B'', ''C'', ''D'']"
proof -
  let ?E = "demo_env net_ok decline diamond_docs" and ?r = "demo_reader False False"
  have fresh: "read_locations (events empty_world) = []" "unmarshal_locations (events empty_world) = []"
    by (simp_all add: empty_world_def)
  note whole = include_reads_each_location_once [OF fresh, of ?E ?r diamond_schedule
      "LocalNode ''A''" "diamond_racing False"]
  note race = include_reads_each_location_once [OF fresh, of ?E ?r diamond_schedule
      "LocalNode ''A''" "diamond_racing True"]
  have run: "exec ?E ?r diamond_schedule (start (LocalNode ''A'') empty_world) = diamond_config"
    by (rule diamond_run)
  have res: "Read diamond_config = Some (Inr (graph diamond_config))"
    by (simp add: Read_def demo_defs)
  have c3: "3 < length (pool (diamond_racing False))
      \<and> now (pool (diamond_racing False) ! 3) = Claiming (LocalNode ''D'')
      \<and> Location (LocalNode ''D'') \<notin> set (map fst (vertices (graph (diamond_racing False))))"
    by (simp add: demo_defs)
  have c4: "4 < length (pool (diamond_racing True))
      \<and> now (pool (diamond_racing True) ! 4) = Claiming (LocalNode ''D'')
      \<and> Location (LocalNode ''D'') \<in> set (map fst (vertices (graph (diamond_racing True))))"
    by (simp add: demo_defs)
  have l3: "3 < length (pool (diamond_racing True))
      \<and> now (pool (diamond_racing True) ! 3) = Loading (LocalNode ''D'')"
    by (simp add: demo_defs)
  from whole c3 have "step ?E ?r 3 (diamond_racing False) =
      (diamond_racing False)\<lparr>graph := (graph (diamond_racing False))\<lparr>vertices :=
          vertices (graph (diamond_racing False)) @ [(Location (LocalNode ''D''), None)]\<rparr>,
        pool := (pool (diamond_racing False))
          [3 := (pool (diamond_racing False) ! 3)\<lparr>now := Loading (LocalNode ''D'')\<rparr>]\<rparr>"
    by blast
  also have "\<dots> = diamond_racing True"
    by (simp add: demo_defs)
  finally have s3: "step ?E ?r 3 (diamond_racing False) = diamond_racing True" .
  from race c4 have "step ?E ?r 4 (diamond_racing True) =
      (diamond_racing True)\<lparr>pool := (pool (diamond_racing True))
          [4 := (pool (diamond_racing True) ! 4)\<lparr>now :=
             after_include (pool (diamond_racing True) ! 4) None\<rparr>]\<rparr>"
    by blast
  also have "\<dots> = (diamond_racing True)\<lparr>pool := (pool (diamond_racing True))
          [4 := goroutine_at (Some 2) (Some (''C'', ''D'', demo_include ''d'' ''D'' False)) Linking]\<rparr>"
    by (simp add: after_include_def demo_defs)
  finally have s4: "step ?E ?r 4 (diamond_racing True) =
       (diamond_racing True)\<lparr>pool := (pool (diamond_racing True))
          [4 := goroutine_at (Some 2) (Some (''C'', ''D'', demo_include ''d'' ''D'' False)) Linking]\<rparr>" .
  from race l3 have "read_locations (events (io (step ?E ?r 3 (diamond_racing True)))) =
      read_locations (events (io (diamond_racing True))) @ [Location (LocalNode ''D'')]"
    by blast
  also have "\<dots> = [''A'', ''B'', ''C'', ''D'']"
    by (simp add: demo_defs)
  finally have r3: "read_locations (events (io (step ?E ?r 3 (diamond_racing True)))) =
      [''A'', ''B'', ''C'', ''D'']" .
  from whole run res have all: "mset (read_locations (events (io diamond_config))) =
      mset (map fst (vertices (graph diamond_config)))"
    by simp
  have reads: "read_locations (events (io diamond_config)) = [''A'', ''B'', ''C'', ''D'']"
    and verts: "map fst (vertices (graph diamond_config)) = [''A'', ''B'', ''C'', ''D'']"
    by (simp_all add: demo_defs)
  from run res reads verts diamond_racing_run s3 s4 r3 show ?thesis by simp
qed


section \<open>Cycles are rejected\<close>

text \<open>
  The run on the document \<open>A\<close> that includes \<open>B\<close>, which includes \<open>A\<close>, up to the moment
  where the goroutine of \<open>B\<close> has linked \<open>B\<close> to \<open>A\<close> and the goroutine of \<open>A\<close> stands before
  its edge.
\<close>

lemma cycle_run:
  "exec (demo_env net_ok decline cycle_docs) (demo_reader False False) cycle_schedule
     (start (LocalNode ''A'') empty_world) = cycle_config"
  by (simp add: run_defs demo_defs)

text \<open>
  The steps on the way of a cycle error. The critical section of lines 146 to 173 turns
  the cycle error of the graph into the cycle error of the two locations and leaves the
  graph as it is; the error group of the including call records the first error its
  goroutines return; \<^verbatim>\<open>Wait\<close> (line 179) hands it back once the goroutines are done; and
  the error the first call returns is the error of \<^verbatim>\<open>Read\<close>.
\<close>

lemma step_Linking_cycle:
  assumes "i < length (pool c)" and "now (pool c ! i) = Linking"
    and "job (pool c ! i) = Some (src, dst, inc)" and "creates_cycle (edges (graph c)) src dst"
  shows "step E r i c =
    c\<lparr>pool := (pool c)[i := (pool c ! i)\<lparr>now := Returned (Some (TaskfileCycleError src dst))\<rparr>]\<rparr>"
  using assms by (simp add: step_def Let_def link_rejects_cycle)

lemma step_Returned_reports:
  assumes "i < length (pool c)" and "now (pool c ! i) = Returned (Some e)"
    and "parent (pool c ! i) = Some p" and "p < length (pool c)"
    and "now (pool c ! p) = Waiting None"
  shows "now (pool (step E r i c) ! p) = Waiting (Some e)"
proof -
  from assms have "p \<noteq> i" by auto
  with assms show ?thesis
    by (simp add: step_def Let_def report_def record_error_def)
qed

lemma step_Waiting_fails:
  assumes "p < length (pool c)" and "now (pool c ! p) = Waiting (Some e)"
    and "children_done p (pool c)"
  shows "now (pool (step E r p c) ! p) = Returned (Some e)"
  using assms by (simp add: step_def Let_def after_include_def)

lemma step_root_fails:
  assumes "pool c \<noteq> []" and "now (pool c ! 0) = Returned (Some e)"
  shows "Read (step E r 0 c) = Some (Inl e)"
proof -
  let ?ps = "report (parent (pool c ! 0)) (Some e) (pool c)"
  from assms(1) have "length ?ps \<noteq> 0" by simp
  then obtain u us where "?ps = u # us" by (cases ?ps) auto
  with assms show ?thesis
    by (simp add: step_def Let_def Read_def)
qed

text \<open>
  C2: the document graph is always acyclic. Under every schedule of the goroutines the
  edges of the graph are acyclic at every moment, and so are those of a graph that
  \<^verbatim>\<open>Read\<close> returns. A goroutine whose edge would close a cycle returns the cycle error
  that names the source and the destination, and the graph is unchanged; from then on
  \<^verbatim>\<open>Read\<close> returns no graph, however the run goes on. The error reaches the including
  call through its error group: the group records the first error, the call that waits
  returns it, and the error of the first call is the error of \<^verbatim>\<open>Read\<close>. As long as
  \<^verbatim>\<open>Read\<close> has not returned, some goroutine can take a step that changes the run.
\<close>

theorem include_rejects_cycles:
  "acyclic (edge_pairs (edges (graph (exec E r sched (start n w)))))
   \<and> (\<forall>g. Read (exec E r sched (start n w)) = Some (Inr g) \<longrightarrow> acyclic (edge_pairs (edges g)))
   \<and> (\<forall>i src dst inc. i < length (pool c) \<and> now (pool c ! i) = Linking
        \<and> job (pool c ! i) = Some (src, dst, inc) \<and> creates_cycle (edges (graph c)) src dst \<longrightarrow>
        step E r i c =
          c\<lparr>pool := (pool c)[i := (pool c ! i)\<lparr>now := Returned (Some (TaskfileCycleError src dst))\<rparr>]\<rparr>)
   \<and> (\<forall>i src dst inc sched' res. i < length (pool (exec E r sched (start n w)))
        \<and> now (pool (exec E r sched (start n w)) ! i) = Linking
        \<and> job (pool (exec E r sched (start n w)) ! i) = Some (src, dst, inc)
        \<and> creates_cycle (edges (graph (exec E r sched (start n w)))) src dst
        \<and> Read (exec E r (sched @ i # sched') (start n w)) = Some res \<longrightarrow>
        (\<exists>e. res = Inl e))
   \<and> (\<forall>i p e. i < length (pool c) \<and> now (pool c ! i) = Returned (Some e)
        \<and> parent (pool c ! i) = Some p \<and> p < length (pool c) \<and> now (pool c ! p) = Waiting None \<longrightarrow>
        now (pool (step E r i c) ! p) = Waiting (Some e))
   \<and> (\<forall>p e. p < length (pool c) \<and> now (pool c ! p) = Waiting (Some e)
        \<and> children_done p (pool c) \<longrightarrow>
        now (pool (step E r p c) ! p) = Returned (Some e))
   \<and> (\<forall>e. pool c \<noteq> [] \<and> now (pool c ! 0) = Returned (Some e) \<longrightarrow>
        Read (step E r 0 c) = Some (Inl e))
   \<and> (Read (exec E r sched (start n w)) = None \<longrightarrow>
        (\<exists>j < length (pool (exec E r sched (start n w))).
           exec E r (sched @ [j]) (start n w) \<noteq> exec E r sched (start n w)))"
proof -
  let ?c = "exec E r sched (start n w)"
  have a: "acyclic (edge_pairs (edges (graph ?c)))" by (rule exec_acyclic)
  have b: "acyclic (edge_pairs (edges g))" if "Read ?c = Some (Inr g)" for g
    using that a by (simp add: Read_Inr)
  have d: "\<exists>e. res = Inl e"
    if i: "i < length (pool ?c)" and l: "now (pool ?c ! i) = Linking"
      and j: "job (pool ?c ! i) = Some (src, dst, inc)"
      and cy: "creates_cycle (edges (graph ?c)) src dst"
      and res: "Read (exec E r (sched @ i # sched') (start n w)) = Some res"
    for i src dst inc sched' res
  proof -
    let ?c1 = "exec E r (sched @ [i]) (start n w)"
    have c1: "?c1 = step E r i ?c" by (simp add: exec_def)
    with step_Linking_cycle [OF i l j cy, of E r] i
    have "i < length (pool ?c1)" and "failed (now (pool ?c1 ! i))" by simp_all
    moreover have "exec E r (sched @ i # sched') (start n w) = exec E r sched' ?c1"
      by (simp add: exec_def)
    ultimately show ?thesis using failed_run_fails [OF refl, of i E r "sched @ [i]" n w sched' res] res
      by simp
  qed
  have l: "\<forall>i src dst inc. i < length (pool c) \<and> now (pool c ! i) = Linking
        \<and> job (pool c ! i) = Some (src, dst, inc) \<and> creates_cycle (edges (graph c)) src dst \<longrightarrow>
        step E r i c =
          c\<lparr>pool := (pool c)[i := (pool c ! i)\<lparr>now := Returned (Some (TaskfileCycleError src dst))\<rparr>]\<rparr>"
    by (simp add: step_Linking_cycle)
  have f: "\<forall>i p e. i < length (pool c) \<and> now (pool c ! i) = Returned (Some e)
        \<and> parent (pool c ! i) = Some p \<and> p < length (pool c) \<and> now (pool c ! p) = Waiting None \<longrightarrow>
        now (pool (step E r i c) ! p) = Waiting (Some e)"
    by (simp add: step_Returned_reports)
  have g: "\<forall>p e. p < length (pool c) \<and> now (pool c ! p) = Waiting (Some e)
        \<and> children_done p (pool c) \<longrightarrow>
        now (pool (step E r p c) ! p) = Returned (Some e)"
    by (simp add: step_Waiting_fails)
  have h: "\<forall>e. pool c \<noteq> [] \<and> now (pool c ! 0) = Returned (Some e) \<longrightarrow>
        Read (step E r 0 c) = Some (Inl e)"
    by (simp add: step_root_fails)
  from b have b': "\<forall>g. Read ?c = Some (Inr g) \<longrightarrow> acyclic (edge_pairs (edges g))" by blast
  from d have d': "\<forall>i src dst inc sched' res. i < length (pool ?c)
        \<and> now (pool ?c ! i) = Linking
        \<and> job (pool ?c ! i) = Some (src, dst, inc)
        \<and> creates_cycle (edges (graph ?c)) src dst
        \<and> Read (exec E r (sched @ i # sched') (start n w)) = Some res \<longrightarrow>
        (\<exists>e. res = Inl e)" by blast
  from a b' l d' f g h exec_not_stuck [of E r sched n w] show ?thesis by (intro conjI)
qed


theorem include_rejects_cycles_witness:
  "exec (demo_env net_ok decline cycle_docs) (demo_reader False False) cycle_schedule
     (start (LocalNode ''A'') empty_world) = cycle_config
   \<and> acyclic (edge_pairs (edges (graph cycle_config)))
   \<and> creates_cycle (edges (graph cycle_config)) ''A'' ''B''
   \<and> step (demo_env net_ok decline cycle_docs) (demo_reader False False) 1 cycle_config =
       cycle_config\<lparr>pool := (pool cycle_config)
         [1 := goroutine_at (Some 0) (Some (''A'', ''B'', demo_include ''b'' ''B'' False))
                 (Returned (Some (TaskfileCycleError ''A'' ''B'')))]\<rparr>
   \<and> now (pool (exec (demo_env net_ok decline cycle_docs) (demo_reader False False) [1, 1]
          cycle_config) ! 0) = Waiting (Some (TaskfileCycleError ''A'' ''B''))
   \<and> now (pool (exec (demo_env net_ok decline cycle_docs) (demo_reader False False) [1, 1, 0]
          cycle_config) ! 0) = Returned (Some (TaskfileCycleError ''A'' ''B''))
   \<and> Read (exec (demo_env net_ok decline cycle_docs) (demo_reader False False)
          (cycle_schedule @ cycle_rest) (start (LocalNode ''A'') empty_world)) =
       Some (Inl (TaskfileCycleError ''A'' ''B''))
   \<and> edges (graph (exec (demo_env net_ok decline cycle_docs) (demo_reader False False)
          (cycle_schedule @ cycle_rest) (start (LocalNode ''A'') empty_world))) =
       [demo_edge ''B'' ''A'' [demo_include ''a'' ''A'' False]]"
proof -
  let ?E = "demo_env net_ok decline cycle_docs" and ?r = "demo_reader False False"
  let ?s = "start (LocalNode ''A'') empty_world"
  let ?e = "TaskfileCycleError ''A'' ''B''"
  let ?c1 = "step ?E ?r 1 cycle_config"
  let ?c2 = "step ?E ?r 1 ?c1"
  let ?c3 = "step ?E ?r 0 ?c2"
  note at_link = include_rejects_cycles [where E = ?E and r = ?r and sched = cycle_schedule
      and n = "LocalNode ''A''" and w = empty_world and c = cycle_config]
  note at_report = include_rejects_cycles [where E = ?E and r = ?r and sched = cycle_schedule
      and n = "LocalNode ''A''" and w = empty_world and c = ?c1]
  note at_wait = include_rejects_cycles [where E = ?E and r = ?r and sched = cycle_schedule
      and n = "LocalNode ''A''" and w = empty_world and c = ?c2]
  note at_root = include_rejects_cycles [where E = ?E and r = ?r and sched = cycle_schedule
      and n = "LocalNode ''A''" and w = empty_world and c = ?c3]
  have run: "exec ?E ?r cycle_schedule ?s = cycle_config" by (rule cycle_run)
  from at_link have "acyclic (edge_pairs (edges (graph (exec ?E ?r cycle_schedule ?s))))"
    by (rule conjunct1)
  then have acy: "acyclic (edge_pairs (edges (graph cycle_config)))" by (simp only: run)
  have closes: "creates_cycle (edges (graph cycle_config)) ''A'' ''B''"
    by (simp add: demo_defs creates_cycle_back_edge edge_pairs_def)
  have "1 < length (pool cycle_config) \<and> now (pool cycle_config ! 1) = Linking
      \<and> job (pool cycle_config ! 1) = Some (''A'', ''B'', demo_include ''b'' ''B'' False)"
    by (simp add: demo_defs)
  with at_link closes have "?c1 = cycle_config\<lparr>pool := (pool cycle_config)
      [1 := (pool cycle_config ! 1)\<lparr>now := Returned (Some ?e)\<rparr>]\<rparr>"
    by blast
  also have "\<dots> = cycle_config\<lparr>pool := (pool cycle_config)
         [1 := goroutine_at (Some 0) (Some (''A'', ''B'', demo_include ''b'' ''B'' False))
                 (Returned (Some ?e))]\<rparr>"
    by (simp add: demo_defs)
  finally have c1: "?c1 = cycle_config\<lparr>pool := (pool cycle_config)
         [1 := goroutine_at (Some 0) (Some (''A'', ''B'', demo_include ''b'' ''B'' False))
                 (Returned (Some ?e))]\<rparr>" .
  have "1 < length (pool ?c1) \<and> now (pool ?c1 ! 1) = Returned (Some ?e)
      \<and> parent (pool ?c1 ! 1) = Some 0 \<and> 0 < length (pool ?c1) \<and> now (pool ?c1 ! 0) = Waiting None"
    unfolding c1 by (simp add: demo_defs)
  with at_report have c2: "now (pool ?c2 ! 0) = Waiting (Some ?e)" by blast
  have "0 < length (pool ?c2) \<and> children_done 0 (pool ?c2)"
    unfolding c1 by (simp add: run_defs demo_defs)
  with at_wait c2 have c3: "now (pool ?c3 ! 0) = Returned (Some ?e)" by blast
  have "pool ?c3 \<noteq> []"
    unfolding c1 by (simp add: run_defs demo_defs)
  with at_root c3 have "Read (step ?E ?r 0 ?c3) = Some (Inl ?e)" by blast
  moreover have "exec ?E ?r (cycle_schedule @ cycle_rest) ?s = step ?E ?r 0 ?c3"
    unfolding exec_append run by (simp add: exec_def cycle_rest_def)
  ultimately have res: "Read (exec ?E ?r (cycle_schedule @ cycle_rest) ?s) = Some (Inl ?e)"
    by simp
  have kept: "edges (graph (exec ?E ?r (cycle_schedule @ cycle_rest) ?s)) =
       [demo_edge ''B'' ''A'' [demo_include ''a'' ''A'' False]]"
    unfolding exec_append run by (simp add: run_defs demo_defs)
  have "exec ?E ?r [1, 1] cycle_config = ?c2" and "exec ?E ?r [1, 1, 0] cycle_config = ?c3"
    by (simp_all add: exec_def)
  with run acy closes c1 c2 c3 res kept show ?thesis by simp
qed


section \<open>Optional includes\<close>

text \<open>
  What the goroutine of an include returns before it calls \<^verbatim>\<open>include\<close> (lines 116 to
  138). The templates do not touch the optional flag; a failure of \<^verbatim>\<open>NewNode\<close> is
  suppressed when the include is optional and returned when it is not; the failures
  before it are returned whatever the flag.
\<close>

lemma substitute_Optional:
  "substitute E tf inc0 = (inc1, ce) \<Longrightarrow> Optional inc1 = Optional inc0"
  by (auto simp add: substitute_def Replace_def Let_def split: prod.splits)

lemma resolve_NewNode_fails:
  assumes "substitute E tf inc0 = (inc1, None)"
    and "ResolveEntrypoint E m (Taskfile inc1) = Inr ep"
    and "ResolveDir E m (Dir inc1) = Inr d"
    and "NewNode E ep d (insecure r) (timeout r) m = Inl e"
  shows "resolve E r m tf inc0 = Inl (if Optional inc0 then None else Some e)"
  using assms substitute_Optional [OF assms(1)]
  by (simp add: resolve_def Let_def)

lemma resolve_earlier_fails:
  "substitute E tf inc0 = (inc1, Some e) \<Longrightarrow> resolve E r m tf inc0 = Inl (Some e)"
  "substitute E tf inc0 = (inc1, None) \<Longrightarrow> ResolveEntrypoint E m (Taskfile inc1) = Inl e \<Longrightarrow>
     resolve E r m tf inc0 = Inl (Some e)"
  "substitute E tf inc0 = (inc1, None) \<Longrightarrow> ResolveEntrypoint E m (Taskfile inc1) = Inr ep \<Longrightarrow>
     ResolveDir E m (Dir inc1) = Inl e \<Longrightarrow> resolve E r m tf inc0 = Inl (Some e)"
  by (simp_all add: resolve_def)

text \<open>
  The steps of a goroutine that fails. The goroutine that returns before the call of
  \<^verbatim>\<open>include\<close> changes neither the graph nor the log; one that returns no error leaves
  the error group of the including call as it is; a failure of the read is returned
  whatever the include says; and a goroutine that has failed keeps \<^verbatim>\<open>Read\<close> from
  returning a graph.
\<close>

lemma step_Resolving_fails:
  assumes "i < length (pool c)" and "now (pool c ! i) = Resolving m tf inc0"
    and "resolve E r m tf inc0 = Inl err"
  shows "step E r i c = c\<lparr>pool := (pool c)[i := (pool c ! i)\<lparr>now := Returned err\<rparr>]\<rparr>"
  using assms by (simp add: step_def Let_def)

lemma step_Returned_None:
  assumes "i < length (pool c)" and "now (pool c ! i) = Returned None"
  shows "step E r i c = c\<lparr>pool := (pool c)[i := (pool c ! i)\<lparr>now := Finished None\<rparr>]\<rparr>"
proof -
  have "record_error None t = t" for t
  proof (cases "now t")
    case (Waiting slot)
    then have "t\<lparr>now := Waiting (first_error slot None)\<rparr> = t" by (cases slot) simp_all
    with Waiting show ?thesis by (simp add: record_error_def)
  qed (simp_all add: record_error_def)
  then have "report par None (pool c) = pool c" for par
    by (simp add: report_def split: option.splits)
  with assms show ?thesis by (simp add: step_def Let_def)
qed

lemma step_Loading_fails:
  assumes "i < length (pool c)" and "now (pool c ! i) = Loading m"
    and "fst (readNode E r m (io c)) = Inl e"
  shows "now (pool (step E r i c) ! i) = Returned (Some e)"
  using assms by (auto simp add: step_def Let_def after_include_def split: prod.splits sum.splits)

lemma failed_step_fails:
  assumes i: "i < length (pool (exec E r sched (start n w)))"
    and f: "failed (now (pool (step E r i (exec E r sched (start n w))) ! i))"
    and res: "Read (exec E r (sched @ i # sched') (start n w)) = Some res"
  shows "\<exists>e. res = Inl e"
proof -
  let ?c1 = "exec E r (sched @ [i]) (start n w)"
  have c1: "?c1 = step E r i (exec E r sched (start n w))" by (simp add: exec_def)
  with i f step_length [of "exec E r sched (start n w)" E r i]
  have "i < length (pool ?c1)" and "failed (now (pool ?c1 ! i))" by simp_all
  moreover have "exec E r (sched @ i # sched') (start n w) = exec E r sched' ?c1"
    by (simp add: exec_def)
  ultimately show ?thesis
    using failed_run_fails [OF refl, of i E r "sched @ [i]" n w sched' res] res by simp
qed

text \<open>
  The runs on the document whose only include cannot be constructed, with the include
  optional and not, and the run on the document whose optional include has no document.
\<close>

lemma optional_start:
  "exec (demo_env net_ok decline (optional_docs opt)) (demo_reader False False)
     (take 2 optional_schedule) (start (LocalNode ''A'') empty_world) = optional_config opt"
  by (simp add: run_defs demo_defs)

lemma optional_run:
  "Read (exec (demo_env net_ok decline (optional_docs True)) (demo_reader False False)
     optional_schedule (start (LocalNode ''A'') empty_world)) = Some (Inr (optional_graph True))"
  by (simp add: run_defs demo_defs)

lemma required_run:
  "Read (exec (demo_env net_ok decline (optional_docs False)) (demo_reader False False)
     optional_schedule (start (LocalNode ''A'') empty_world)) =
   Some (Inl (OtherError ''unreachable''))"
  by (simp add: run_defs demo_defs)

lemma broken_start:
  "exec (demo_env net_ok decline broken_docs) (demo_reader False False)
     (take 4 broken_schedule) (start (LocalNode ''A'') empty_world) = broken_config"
  by (simp add: run_defs demo_defs)

lemma broken_run:
  "Read (exec (demo_env net_ok decline broken_docs) (demo_reader False False)
     broken_schedule (start (LocalNode ''A'') empty_world)) =
   Some (Inl (TaskfileDecodeErrorWithFileInfo ''no document'' ''B'' ''B'' 2))"
  by (simp add: run_defs demo_defs)

text \<open>
  C8: a failure of an include at the construction of the included node is suppressed if
  and only if the include is optional. At a failure of \<^verbatim>\<open>NewNode\<close> the goroutine returns
  no error when the include is optional and the error of \<^verbatim>\<open>NewNode\<close> when it is not;
  at a failure of the templater, of \<^verbatim>\<open>ResolveEntrypoint\<close> or of \<^verbatim>\<open>ResolveDir\<close> it returns
  the error whatever the flag. The goroutine that returns so leaves the graph and the log
  unchanged, and one that returns no error leaves the error group unchanged. A failure of
  the read of the included node, and the error of the goroutines below it, are returned
  whatever the flag. Under every schedule, once the goroutine of an include meets a
  failure that is not suppressed, \<^verbatim>\<open>Read\<close> returns no graph, however the run goes on;
  and as long as \<^verbatim>\<open>Read\<close> has not returned, some goroutine can take a step that changes
  the run.
\<close>

theorem optional_include_suppressed:
  "(\<forall>inc1 ep d e. substitute E tf incl = (inc1, None)
        \<and> ResolveEntrypoint E m (Taskfile inc1) = Inr ep \<and> ResolveDir E m (Dir inc1) = Inr d
        \<and> NewNode E ep d (insecure r) (timeout r) m = Inl e \<longrightarrow>
        resolve E r m tf incl = Inl (if Optional incl then None else Some e))
   \<and> (\<forall>inc1 e. substitute E tf incl = (inc1, Some e) \<longrightarrow> resolve E r m tf incl = Inl (Some e))
   \<and> (\<forall>inc1 e. substitute E tf incl = (inc1, None)
        \<and> ResolveEntrypoint E m (Taskfile inc1) = Inl e \<longrightarrow>
        resolve E r m tf incl = Inl (Some e))
   \<and> (\<forall>inc1 ep e. substitute E tf incl = (inc1, None)
        \<and> ResolveEntrypoint E m (Taskfile inc1) = Inr ep \<and> ResolveDir E m (Dir inc1) = Inl e \<longrightarrow>
        resolve E r m tf incl = Inl (Some e))
   \<and> (\<forall>i err. i < length (pool c) \<and> now (pool c ! i) = Resolving m tf incl
        \<and> resolve E r m tf incl = Inl err \<longrightarrow>
        step E r i c = c\<lparr>pool := (pool c)[i := (pool c ! i)\<lparr>now := Returned err\<rparr>]\<rparr>)
   \<and> (\<forall>i. i < length (pool c) \<and> now (pool c ! i) = Returned None \<longrightarrow>
        step E r i c = c\<lparr>pool := (pool c)[i := (pool c ! i)\<lparr>now := Finished None\<rparr>]\<rparr>)
   \<and> (\<forall>i l e. i < length (pool c) \<and> now (pool c ! i) = Loading l
        \<and> fst (readNode E r l (io c)) = Inl e \<longrightarrow>
        now (pool (step E r i c) ! i) = Returned (Some e))
   \<and> (\<forall>i e. i < length (pool c) \<and> now (pool c ! i) = Waiting (Some e)
        \<and> children_done i (pool c) \<longrightarrow>
        now (pool (step E r i c) ! i) = Returned (Some e))
   \<and> (\<forall>i e sched' res. i < length (pool (exec E r sched (start n w)))
        \<and> now (pool (exec E r sched (start n w)) ! i) = Resolving m tf incl
        \<and> resolve E r m tf incl = Inl (Some e)
        \<and> Read (exec E r (sched @ i # sched') (start n w)) = Some res \<longrightarrow>
        (\<exists>e'. res = Inl e'))
   \<and> (\<forall>i l e sched' res. i < length (pool (exec E r sched (start n w)))
        \<and> now (pool (exec E r sched (start n w)) ! i) = Loading l
        \<and> fst (readNode E r l (io (exec E r sched (start n w)))) = Inl e
        \<and> Read (exec E r (sched @ i # sched') (start n w)) = Some res \<longrightarrow>
        (\<exists>e'. res = Inl e'))
   \<and> (Read (exec E r sched (start n w)) = None \<longrightarrow>
        (\<exists>j < length (pool (exec E r sched (start n w))).
           exec E r (sched @ [j]) (start n w) \<noteq> exec E r sched (start n w)))"
proof -
  let ?c = "exec E r sched (start n w)"
  have a: "\<forall>inc1 ep d e. substitute E tf incl = (inc1, None)
        \<and> ResolveEntrypoint E m (Taskfile inc1) = Inr ep \<and> ResolveDir E m (Dir inc1) = Inr d
        \<and> NewNode E ep d (insecure r) (timeout r) m = Inl e \<longrightarrow>
        resolve E r m tf incl = Inl (if Optional incl then None else Some e)"
    using resolve_NewNode_fails [of E tf incl _ m _ _ r] by blast
  have b1: "\<forall>inc1 e. substitute E tf incl = (inc1, Some e) \<longrightarrow> resolve E r m tf incl = Inl (Some e)"
    using resolve_earlier_fails(1) [of E tf incl _ _ r m] by blast
  have b2: "\<forall>inc1 e. substitute E tf incl = (inc1, None)
        \<and> ResolveEntrypoint E m (Taskfile inc1) = Inl e \<longrightarrow>
        resolve E r m tf incl = Inl (Some e)"
    using resolve_earlier_fails(2) [of E tf incl _ m _ r] by blast
  have b3: "\<forall>inc1 ep e. substitute E tf incl = (inc1, None)
        \<and> ResolveEntrypoint E m (Taskfile inc1) = Inr ep \<and> ResolveDir E m (Dir inc1) = Inl e \<longrightarrow>
        resolve E r m tf incl = Inl (Some e)"
    using resolve_earlier_fails(3) [of E tf incl _ m _ _ r] by blast
  have s1: "\<forall>i err. i < length (pool c) \<and> now (pool c ! i) = Resolving m tf incl
        \<and> resolve E r m tf incl = Inl err \<longrightarrow>
        step E r i c = c\<lparr>pool := (pool c)[i := (pool c ! i)\<lparr>now := Returned err\<rparr>]\<rparr>"
    by (simp add: step_Resolving_fails)
  have s2: "\<forall>i. i < length (pool c) \<and> now (pool c ! i) = Returned None \<longrightarrow>
        step E r i c = c\<lparr>pool := (pool c)[i := (pool c ! i)\<lparr>now := Finished None\<rparr>]\<rparr>"
    by (simp add: step_Returned_None)
  have s3: "\<forall>i l e. i < length (pool c) \<and> now (pool c ! i) = Loading l
        \<and> fst (readNode E r l (io c)) = Inl e \<longrightarrow>
        now (pool (step E r i c) ! i) = Returned (Some e)"
    by (simp add: step_Loading_fails)
  have s4: "\<forall>i e. i < length (pool c) \<and> now (pool c ! i) = Waiting (Some e)
        \<and> children_done i (pool c) \<longrightarrow>
        now (pool (step E r i c) ! i) = Returned (Some e)"
    by (simp add: step_Waiting_fails)
  have r1: "\<exists>e'. res = Inl e'"
    if "i < length (pool ?c)" and "now (pool ?c ! i) = Resolving m tf incl"
      and "resolve E r m tf incl = Inl (Some e)"
      and "Read (exec E r (sched @ i # sched') (start n w)) = Some res"
    for i e sched' res
  proof (rule failed_step_fails [OF that(1) _ that(4)])
    from that(1) step_Resolving_fails [OF that(1-3)]
    show "failed (now (pool (step E r i ?c) ! i))" by simp
  qed
  have r2: "\<exists>e'. res = Inl e'"
    if "i < length (pool ?c)" and "now (pool ?c ! i) = Loading l"
      and "fst (readNode E r l (io ?c)) = Inl e"
      and "Read (exec E r (sched @ i # sched') (start n w)) = Some res"
    for i l e sched' res
  proof (rule failed_step_fails [OF that(1) _ that(4)])
    from step_Loading_fails [OF that(1-3)]
    show "failed (now (pool (step E r i ?c) ! i))" by simp
  qed
  from r1 have r1': "\<forall>i e sched' res. i < length (pool ?c)
        \<and> now (pool ?c ! i) = Resolving m tf incl
        \<and> resolve E r m tf incl = Inl (Some e)
        \<and> Read (exec E r (sched @ i # sched') (start n w)) = Some res \<longrightarrow>
        (\<exists>e'. res = Inl e')" by blast
  from r2 have r2': "\<forall>i l e sched' res. i < length (pool ?c)
        \<and> now (pool ?c ! i) = Loading l
        \<and> fst (readNode E r l (io ?c)) = Inl e
        \<and> Read (exec E r (sched @ i # sched') (start n w)) = Some res \<longrightarrow>
        (\<exists>e'. res = Inl e')" by blast
  from a b1 b2 b3 s1 s2 s3 s4 r1' r2' exec_not_stuck [of E r sched n w]
  show ?thesis by (intro conjI)
qed


theorem optional_include_suppressed_witness:
  "exec (demo_env net_ok decline (optional_docs True)) (demo_reader False False)
     (take 2 optional_schedule) (start (LocalNode ''A'') empty_world) = optional_config True
   \<and> step (demo_env net_ok decline (optional_docs True)) (demo_reader False False) 1
       (optional_config True) =
       (optional_config True)\<lparr>pool := (pool (optional_config True))
          [1 := goroutine_at (Some 0) None (Returned None)]\<rparr>
   \<and> step (demo_env net_ok decline (optional_docs True)) (demo_reader False False) 1
       (step (demo_env net_ok decline (optional_docs True)) (demo_reader False False) 1
          (optional_config True)) =
       (optional_config True)\<lparr>pool := (pool (optional_config True))
          [1 := goroutine_at (Some 0) None (Finished None)]\<rparr>
   \<and> Read (exec (demo_env net_ok decline (optional_docs True)) (demo_reader False False)
       optional_schedule (start (LocalNode ''A'') empty_world)) = Some (Inr (optional_graph True))
   \<and> vertices (optional_graph True) = [demo_vertex ''A'' [(''x'', demo_include ''x'' ''X'' True)]]
   \<and> edges (optional_graph True) = []
   \<and> exec (demo_env net_ok decline (optional_docs False)) (demo_reader False False)
     (take 2 optional_schedule) (start (LocalNode ''A'') empty_world) = optional_config False
   \<and> step (demo_env net_ok decline (optional_docs False)) (demo_reader False False) 1
       (optional_config False) =
       (optional_config False)\<lparr>pool := (pool (optional_config False))
          [1 := goroutine_at (Some 0) None (Returned (Some (OtherError ''unreachable'')))]\<rparr>
   \<and> Read (exec (demo_env net_ok decline (optional_docs False)) (demo_reader False False)
       optional_schedule (start (LocalNode ''A'') empty_world)) =
       Some (Inl (OtherError ''unreachable''))
   \<and> resolve (demo_env net_ok decline no_docs) (demo_reader False False) (LocalNode ''A'')
       (demo_doc [] []) (demo_include ''t'' ''{{.BAD}}'' True) = Inl (Some (OtherError ''template''))
   \<and> resolve (demo_env net_ok decline no_docs) (demo_reader False False) (LocalNode ''A'')
       (demo_doc [] []) (demo_include ''t'' ''?'' True) = Inl (Some (OtherError ''entrypoint''))
   \<and> resolve (demo_env net_ok decline no_docs) (demo_reader False False) (LocalNode ''A'')
       (demo_doc [] []) ((demo_include ''t'' ''B'' True)\<lparr>Dir := ''?''\<rparr>) =
       Inl (Some (OtherError ''directory''))
   \<and> exec (demo_env net_ok decline broken_docs) (demo_reader False False)
       (take 4 broken_schedule) (start (LocalNode ''A'') empty_world) = broken_config
   \<and> now (pool (step (demo_env net_ok decline broken_docs) (demo_reader False False) 1
       broken_config) ! 1) =
       Returned (Some (TaskfileDecodeErrorWithFileInfo ''no document'' ''B'' ''B'' 2))
   \<and> Read (exec (demo_env net_ok decline broken_docs) (demo_reader False False)
       broken_schedule (start (LocalNode ''A'') empty_world)) =
       Some (Inl (TaskfileDecodeErrorWithFileInfo ''no document'' ''B'' ''B'' 2))"
proof -
  let ?r = "demo_reader False False" and ?A = "LocalNode ''A''"
  let ?E = "\<lambda>opt. demo_env net_ok decline (optional_docs opt)"
  let ?N = "demo_env net_ok decline no_docs" and ?B = "demo_env net_ok decline broken_docs"
  let ?doc = "\<lambda>opt. (demo_doc [] [(''x'', demo_include ''x'' ''X'' opt)])\<lparr>tfLocation := ''A''\<rparr>"
  let ?x = "\<lambda>opt. demo_include ''x'' ''X'' opt"
  let ?c1 = "step (?E True) ?r 1 (optional_config True)"
  note dropped = optional_include_suppressed [where E = "?E True" and r = ?r and m = ?A
      and tf = "?doc True" and incl = "?x True" and c = "optional_config True"
      and sched = "take 2 optional_schedule" and n = ?A and w = empty_world]
  note finishing = optional_include_suppressed [where E = "?E True" and r = ?r and m = ?A
      and tf = "?doc True" and incl = "?x True" and c = ?c1
      and sched = "take 2 optional_schedule" and n = ?A and w = empty_world]
  note kept = optional_include_suppressed [where E = "?E False" and r = ?r and m = ?A
      and tf = "?doc False" and incl = "?x False" and c = "optional_config False"
      and sched = "take 2 optional_schedule" and n = ?A and w = empty_world]
  note template = optional_include_suppressed [where E = ?N and r = ?r and m = ?A
      and tf = "demo_doc [] []" and incl = "demo_include ''t'' ''{{.BAD}}'' True"
      and c = broken_config and sched = "[]" and n = ?A and w = empty_world]
  note entrypoint = optional_include_suppressed [where E = ?N and r = ?r and m = ?A
      and tf = "demo_doc [] []" and incl = "demo_include ''t'' ''?'' True"
      and c = broken_config and sched = "[]" and n = ?A and w = empty_world]
  note directory = optional_include_suppressed [where E = ?N and r = ?r and m = ?A
      and tf = "demo_doc [] []" and incl = "(demo_include ''t'' ''B'' True)\<lparr>Dir := ''?''\<rparr>"
      and c = broken_config and sched = "[]" and n = ?A and w = empty_world]
  note recursion = optional_include_suppressed [where E = ?B and r = ?r and m = ?A
      and tf = "demo_doc [] []" and incl = "demo_include ''b'' ''B'' True"
      and c = broken_config and sched = "take 4 broken_schedule" and n = ?A and w = empty_world]
  have "substitute (?E opt) (?doc opt) (?x opt) = (?x opt, None)
      \<and> ResolveEntrypoint (?E opt) ?A (Taskfile (?x opt)) = Inr ''X''
      \<and> ResolveDir (?E opt) ?A (Dir (?x opt)) = Inr []
      \<and> NewNode (?E opt) ''X'' [] (insecure ?r) (timeout ?r) ?A = Inl (OtherError ''unreachable'')"
    for opt
    by (simp add: substitute_def Replace_def demo_defs)
  note built = this
  from dropped [THEN conjunct1, rule_format, OF built [of True]]
  have "resolve (?E True) ?r ?A (?doc True) (?x True) =
      Inl (if Optional (?x True) then None else Some (OtherError ''unreachable''))" .
  then have res_T: "resolve (?E True) ?r ?A (?doc True) (?x True) = Inl None"
    by (simp add: demo_include_def)
  from kept [THEN conjunct1, rule_format, OF built [of False]]
  have "resolve (?E False) ?r ?A (?doc False) (?x False) =
      Inl (if Optional (?x False) then None else Some (OtherError ''unreachable''))" .
  then have res_F: "resolve (?E False) ?r ?A (?doc False) (?x False) =
      Inl (Some (OtherError ''unreachable''))"
    by (simp add: demo_include_def)
  have here: "1 < length (pool (optional_config opt))
      \<and> now (pool (optional_config opt) ! 1) = Resolving ?A (?doc opt) (?x opt)" for opt
    by (simp add: demo_defs)
  from here [of True] res_T
  have "1 < length (pool (optional_config True))
      \<and> now (pool (optional_config True) ! 1) = Resolving ?A (?doc True) (?x True)
      \<and> resolve (?E True) ?r ?A (?doc True) (?x True) = Inl None" by simp
  from dropped [THEN conjunct2, THEN conjunct2, THEN conjunct2, THEN conjunct2, THEN conjunct1, rule_format, OF this]
  have "?c1 = (optional_config True)\<lparr>pool := (pool (optional_config True))
      [1 := (pool (optional_config True) ! 1)\<lparr>now := Returned None\<rparr>]\<rparr>" .
  also have "\<dots> = (optional_config True)\<lparr>pool := (pool (optional_config True))
          [1 := goroutine_at (Some 0) None (Returned None)]\<rparr>"
    by (simp add: demo_defs)
  finally have c1: "?c1 = (optional_config True)\<lparr>pool := (pool (optional_config True))
          [1 := goroutine_at (Some 0) None (Returned None)]\<rparr>" .
  have "1 < length (pool ?c1) \<and> now (pool ?c1 ! 1) = Returned None"
    unfolding c1 by (simp add: demo_defs)
  from finishing [THEN conjunct2, THEN conjunct2, THEN conjunct2, THEN conjunct2, THEN conjunct2, THEN conjunct1, rule_format, OF this]
  have "step (?E True) ?r 1 ?c1 = ?c1\<lparr>pool := (pool ?c1)
      [1 := (pool ?c1 ! 1)\<lparr>now := Finished None\<rparr>]\<rparr>" .
  also have "\<dots> = (optional_config True)\<lparr>pool := (pool (optional_config True))
          [1 := goroutine_at (Some 0) None (Finished None)]\<rparr>"
    unfolding c1 by (simp add: demo_defs)
  finally have c2: "step (?E True) ?r 1 ?c1 =
      (optional_config True)\<lparr>pool := (pool (optional_config True))
          [1 := goroutine_at (Some 0) None (Finished None)]\<rparr>" .
  from here [of False] res_F
  have "1 < length (pool (optional_config False))
      \<and> now (pool (optional_config False) ! 1) = Resolving ?A (?doc False) (?x False)
      \<and> resolve (?E False) ?r ?A (?doc False) (?x False) = Inl (Some (OtherError ''unreachable''))"
    by simp
  from kept [THEN conjunct2, THEN conjunct2, THEN conjunct2, THEN conjunct2, THEN conjunct1, rule_format, OF this]
  have "step (?E False) ?r 1 (optional_config False) =
      (optional_config False)\<lparr>pool := (pool (optional_config False))
      [1 := (pool (optional_config False) ! 1)\<lparr>now := Returned (Some (OtherError ''unreachable''))\<rparr>]\<rparr>" .
  also have "\<dots> = (optional_config False)\<lparr>pool := (pool (optional_config False))
          [1 := goroutine_at (Some 0) None (Returned (Some (OtherError ''unreachable'')))]\<rparr>"
    by (simp add: demo_defs)
  finally have c3: "step (?E False) ?r 1 (optional_config False) =
      (optional_config False)\<lparr>pool := (pool (optional_config False))
          [1 := goroutine_at (Some 0) None (Returned (Some (OtherError ''unreachable'')))]\<rparr>" .
  have "substitute ?N (demo_doc [] []) (demo_include ''t'' ''{{.BAD}}'' True) =
      ((demo_include ''t'' ''{{.BAD}}'' True)\<lparr>Taskfile := []\<rparr>, Some (OtherError ''template''))"
    by (simp add: substitute_def Replace_def demo_defs)
  from template [THEN conjunct2, THEN conjunct1, rule_format, OF this]
  have t: "resolve ?N ?r ?A (demo_doc [] []) (demo_include ''t'' ''{{.BAD}}'' True) =
      Inl (Some (OtherError ''template''))" .
  have "substitute ?N (demo_doc [] []) (demo_include ''t'' ''?'' True) =
        (demo_include ''t'' ''?'' True, None)
      \<and> ResolveEntrypoint ?N ?A (Taskfile (demo_include ''t'' ''?'' True)) =
        Inl (OtherError ''entrypoint'')"
    by (simp add: substitute_def Replace_def demo_defs)
  from entrypoint [THEN conjunct2, THEN conjunct2, THEN conjunct1, rule_format, OF this]
  have e: "resolve ?N ?r ?A (demo_doc [] []) (demo_include ''t'' ''?'' True) =
      Inl (Some (OtherError ''entrypoint''))" .
  have "substitute ?N (demo_doc [] []) ((demo_include ''t'' ''B'' True)\<lparr>Dir := ''?''\<rparr>) =
        ((demo_include ''t'' ''B'' True)\<lparr>Dir := ''?''\<rparr>, None)
      \<and> ResolveEntrypoint ?N ?A (Taskfile ((demo_include ''t'' ''B'' True)\<lparr>Dir := ''?''\<rparr>)) =
        Inr ''B''
      \<and> ResolveDir ?N ?A (Dir ((demo_include ''t'' ''B'' True)\<lparr>Dir := ''?''\<rparr>)) =
        Inl (OtherError ''directory'')"
    by (simp add: substitute_def Replace_def demo_defs)
  from directory [THEN conjunct2, THEN conjunct2, THEN conjunct2, THEN conjunct1, rule_format, OF this]
  have d: "resolve ?N ?r ?A (demo_doc [] [])
      ((demo_include ''t'' ''B'' True)\<lparr>Dir := ''?''\<rparr>) = Inl (Some (OtherError ''directory''))" .
  have "1 < length (pool broken_config) \<and> now (pool broken_config ! 1) = Loading (LocalNode ''B'')
      \<and> fst (readNode ?B ?r (LocalNode ''B'') (io broken_config)) =
        Inl (TaskfileDecodeErrorWithFileInfo ''no document'' ''B'' ''B'' 2)"
    by (simp add: run_defs demo_defs)
  from recursion [THEN conjunct2, THEN conjunct2, THEN conjunct2, THEN conjunct2, THEN conjunct2, THEN conjunct2, THEN conjunct1, rule_format, OF this]
  have l: "now (pool (step ?B ?r 1 broken_config) ! 1) =
      Returned (Some (TaskfileDecodeErrorWithFileInfo ''no document'' ''B'' ''B'' 2))" .
  have g: "vertices (optional_graph True) = [demo_vertex ''A'' [(''x'', demo_include ''x'' ''X'' True)]]"
    "edges (optional_graph True) = []"
    by (simp_all add: optional_graph_def)
  from optional_start [of True] optional_start [of False] c1 c2 c3 optional_run required_run
    t e d broken_start l broken_run g
  show ?thesis by simp
qed

end
